theory Spec2Isabelle
  imports Main "HOL-Library.Sublist"
begin

section \<open>JavaScript values used by the utilities\<close>

text \<open>
  Strings are \<open>string\<close> (lists of characters). A value read from a
  \<open>Record<string, string>\<close> is \<open>None\<close> when the key is absent (\<open>undefined\<close>).
  JavaScript treats \<open>undefined\<close> and the empty string as false in a condition.
\<close>

definition truthy :: "string option \<Rightarrow> bool" where
  "truthy v = (case v of None \<Rightarrow> False | Some s \<Rightarrow> s \<noteq> [])"

section \<open>utils: getCurrentModelFromEnvironment, both versions\<close>

type_synonym envVars = "string \<rightharpoonup> string"

text \<open>The earlier version of the file: ANTHROPIC_MODEL, then OPUS, SONNET, HAIKU.\<close>

definition getCurrentModelFromEnvironment_old :: "envVars \<Rightarrow> string option" where
  "getCurrentModelFromEnvironment_old envVars =
     (if truthy (envVars ''ANTHROPIC_MODEL'') then envVars ''ANTHROPIC_MODEL''
      else if truthy (envVars ''ANTHROPIC_DEFAULT_OPUS_MODEL'')
        then envVars ''ANTHROPIC_DEFAULT_OPUS_MODEL''
      else if truthy (envVars ''ANTHROPIC_DEFAULT_SONNET_MODEL'')
        then envVars ''ANTHROPIC_DEFAULT_SONNET_MODEL''
      else if truthy (envVars ''ANTHROPIC_DEFAULT_HAIKU_MODEL'')
        then envVars ''ANTHROPIC_DEFAULT_HAIKU_MODEL''
      else None)"

text \<open>The later version of the file: ANTHROPIC_MODEL, then HAIKU, SONNET, OPUS.\<close>

definition getCurrentModelFromEnvironment_new :: "envVars \<Rightarrow> string option" where
  "getCurrentModelFromEnvironment_new envVars =
     (if truthy (envVars ''ANTHROPIC_MODEL'') then envVars ''ANTHROPIC_MODEL''
      else if truthy (envVars ''ANTHROPIC_DEFAULT_HAIKU_MODEL'')
        then envVars ''ANTHROPIC_DEFAULT_HAIKU_MODEL''
      else if truthy (envVars ''ANTHROPIC_DEFAULT_SONNET_MODEL'')
        then envVars ''ANTHROPIC_DEFAULT_SONNET_MODEL''
      else if truthy (envVars ''ANTHROPIC_DEFAULT_OPUS_MODEL'')
        then envVars ''ANTHROPIC_DEFAULT_OPUS_MODEL''
      else None)"

text \<open>The value of the first variable in a list of names that is set and non-empty.\<close>

fun firstNonEmpty :: "envVars \<Rightarrow> string list \<Rightarrow> string option" where
  "firstNonEmpty envVars [] = None"
| "firstNonEmpty envVars (key # rest) =
     (if truthy (envVars key) then envVars key else firstNonEmpty envVars rest)"

text \<open>An environment that sets an OPUS and a HAIKU default, and nothing else.\<close>

definition opusAndHaikuEnv :: envVars where
  "opusAndHaikuEnv =
     [''ANTHROPIC_DEFAULT_OPUS_MODEL'' \<mapsto> ''big'', ''ANTHROPIC_DEFAULT_HAIKU_MODEL'' \<mapsto> ''small'']"

text \<open>One that sets both to the same model, and one that sets a SONNET default only.\<close>

definition sameOpusAndHaikuEnv :: envVars where
  "sameOpusAndHaikuEnv =
     [''ANTHROPIC_DEFAULT_OPUS_MODEL'' \<mapsto> ''m'', ''ANTHROPIC_DEFAULT_HAIKU_MODEL'' \<mapsto> ''m'']"

definition sonnetOnlyEnv :: envVars where
  "sonnetOnlyEnv = [''ANTHROPIC_DEFAULT_SONNET_MODEL'' \<mapsto> ''mid'']"

section \<open>InlineEditService: the read-only PreToolUse hook\<close>

definition READ_ONLY_TOOLS :: "string list" where
  "READ_ONLY_TOOLS = [''Read'', ''Grep'', ''Glob'', ''LS'', ''WebSearch'', ''WebFetch'']"

record hookSpecificOutput =
  hookEventName :: string
  permissionDecision :: string
  permissionDecisionReason :: string

record hookResult =
  continue :: bool
  hookSpecific :: "hookSpecificOutput option"

text \<open>
  The callback inside \<open>createReadOnlyHook\<close>, as a function of \<open>hookInput.tool_name\<close>;
  \<open>READ_ONLY_TOOLS.includes\<close> is list membership. The result's optional
  \<open>hookSpecificOutput\<close> field is \<open>hookSpecific\<close> here.
\<close>

definition createReadOnlyHook :: "string \<Rightarrow> hookResult" where
  "createReadOnlyHook toolName =
     (if toolName \<in> set READ_ONLY_TOOLS
      then \<lparr>continue = True, hookSpecific = None\<rparr>
      else \<lparr>continue = False,
            hookSpecific = Some \<lparr>hookEventName = ''PreToolUse'',
              permissionDecision = ''deny'',
              permissionDecisionReason =
                ''Inline edit mode: tool \"'' @ toolName @ ''\" is not allowed (read-only)''\<rparr>\<rparr>)"

section \<open>McpService\<close>

record 'c ClaudianMcpServer =
  name :: string
  config :: 'c
  enabled :: bool
  contextSaving :: bool

text \<open>The service's own state is the loaded server list (the plugin handle is not used here).\<close>

record 'c McpService =
  servers :: "'c ClaudianMcpServer list"

definition getServers :: "'c McpService \<Rightarrow> 'c ClaudianMcpServer list" where
  "getServers this = servers this"

text \<open>
  The object that \<open>getActiveServers\<close> builds, starting from \<open>{}\<close>: its own entries, and
  the config that an assignment to the special key \<open>__proto__\<close> has made its prototype
  (\<open>None\<close> while the prototype is still \<open>Object.prototype\<close>).
\<close>

record 'c serverRecord =
  ownEntries :: "string \<rightharpoonup> 'c"
  protoConfig :: "'c option"

definition emptyRecord :: "'c serverRecord" where
  "emptyRecord = \<lparr>ownEntries = Map.empty, protoConfig = None\<rparr>"

text \<open>
  \<open>result[key] = value\<close> on such an object, for a value that is an object (every
  \<open>McpServerConfig\<close> is one; its properties are plain writable data properties, none
  of them named \<open>__proto__\<close>): the key \<open>__proto__\<close> runs the setter inherited from
  \<open>Object.prototype\<close>, which replaces the prototype and adds no entry; any other key
  adds or overwrites an own entry.
\<close>

definition setProperty :: "'c serverRecord \<Rightarrow> string \<Rightarrow> 'c \<Rightarrow> 'c serverRecord" where
  "setProperty obj key v =
     (if key = ''__proto__'' then obj\<lparr>protoConfig := Some v\<rparr>
      else obj\<lparr>ownEntries := (ownEntries obj)(key \<mapsto> v)\<rparr>)"

text \<open>
  The \<open>for\<close> loop of \<open>getActiveServers\<close>: \<open>result\<close> is the object built so far; each
  \<open>continue\<close> skips to the next server.
\<close>

fun getActiveServers_loop ::
  "string set \<Rightarrow> 'c ClaudianMcpServer list \<Rightarrow> 'c serverRecord \<Rightarrow> 'c serverRecord" where
  "getActiveServers_loop mentionedNames [] result = result"
| "getActiveServers_loop mentionedNames (server # rest) result =
     (if \<not> enabled server then getActiveServers_loop mentionedNames rest result
      else if contextSaving server \<and> name server \<notin> mentionedNames
        then getActiveServers_loop mentionedNames rest result
      else getActiveServers_loop mentionedNames rest
             (setProperty result (name server) (config server)))"

text \<open>The method returns its result together with the service state it leaves behind.\<close>

definition getActiveServers ::
  "string set \<Rightarrow> 'c McpService \<Rightarrow> 'c serverRecord \<times> 'c McpService" where
  "getActiveServers mentionedNames this =
     (getActiveServers_loop mentionedNames (servers this) emptyRecord, this)"

text \<open>The inclusion condition of the doc comment, for one server.\<close>

definition isActive :: "string set \<Rightarrow> 'c ClaudianMcpServer \<Rightarrow> bool" where
  "isActive mentionedNames s =
     (enabled s \<and> (\<not> contextSaving s \<or> name s \<in> mentionedNames))"

definition twoServersOneName :: "nat McpService" where
  "twoServersOneName = \<lparr>servers =
     [\<lparr>name = ''fs'', config = 1, enabled = True, contextSaving = False\<rparr>,
      \<lparr>name = ''fs'', config = 2, enabled = True, contextSaving = False\<rparr>]\<rparr>"

definition threeServers :: "nat McpService" where
  "threeServers = \<lparr>servers =
     [\<lparr>name = ''fs'', config = 1, enabled = True, contextSaving = False\<rparr>,
      \<lparr>name = ''git'', config = 2, enabled = True, contextSaving = True\<rparr>,
      \<lparr>name = ''web'', config = 3, enabled = False, contextSaving = False\<rparr>]\<rparr>"

section \<open>utils: strings\<close>

text \<open>
  \<open>String.prototype.startsWith\<close>, \<open>includes\<close>, \<open>toLowerCase\<close> and
  \<open>Array.prototype.join\<close>. Characters are single bytes in the paths and error
  messages: \<open>toLowerCase\<close> maps the letters A to Z, and leaves the non-ASCII letters
  that JavaScript also handles as they are.
\<close>

fun startsWith :: "string \<Rightarrow> string \<Rightarrow> bool" where
  "startsWith s [] = True"
| "startsWith [] (c # p) = False"
| "startsWith (x # s) (c # p) = (x = c \<and> startsWith s p)"

fun includes_str :: "string \<Rightarrow> string \<Rightarrow> bool" where
  "includes_str [] p = (p = [])"
| "includes_str (x # s) p = (startsWith (x # s) p \<or> includes_str s p)"

definition toLowerChar :: "char \<Rightarrow> char" where
  "toLowerChar c =
     (if (65::nat) \<le> of_char c \<and> of_char c \<le> (90::nat) then char_of (of_char c + (32::nat)) else c)"

definition toLowerCase :: "string \<Rightarrow> string" where
  "toLowerCase s = map toLowerChar s"

fun join :: "'a list \<Rightarrow> 'a list list \<Rightarrow> 'a list" where
  "join sep [] = []"
| "join sep [x] = x"
| "join sep (x # y # rest) = x @ sep @ join sep (y # rest)"

section \<open>utils: session recovery\<close>

definition SESSION_ERROR_PATTERNS :: "string list" where
  "SESSION_ERROR_PATTERNS =
     [''session expired'', ''session not found'', ''invalid session'', ''session invalid'',
      ''process exited with code'']"

text \<open>Each compound pattern is its \<open>includes\<close> list.\<close>

definition SESSION_ERROR_COMPOUND_PATTERNS :: "string list list" where
  "SESSION_ERROR_COMPOUND_PATTERNS =
     [[''session'', ''expired''], [''resume'', ''failed''], [''resume'', ''error'']]"

text \<open>The argument is \<open>unknown\<close>: an \<open>Error\<close> instance with its message, or anything else.\<close>

datatype jsValue = ErrorInstance string | NotAnError

text \<open>The first loop: return true at the first pattern the message includes.\<close>

fun somePatternIncluded :: "string \<Rightarrow> string list \<Rightarrow> bool" where
  "somePatternIncluded msg [] = False"
| "somePatternIncluded msg (pattern # rest) =
     (if includes_str msg pattern then True else somePatternIncluded msg rest)"

text \<open>\<open>includes.every(part => msg.includes(part))\<close>.\<close>

fun everyPartIncluded :: "string \<Rightarrow> string list \<Rightarrow> bool" where
  "everyPartIncluded msg [] = True"
| "everyPartIncluded msg (part # rest) = (includes_str msg part \<and> everyPartIncluded msg rest)"

text \<open>The second loop: return true at the first compound pattern whose parts all occur.\<close>

fun someCompoundIncluded :: "string \<Rightarrow> string list list \<Rightarrow> bool" where
  "someCompoundIncluded msg [] = False"
| "someCompoundIncluded msg (parts # rest) =
     (if everyPartIncluded msg parts then True else someCompoundIncluded msg rest)"

definition isSessionExpiredError :: "jsValue \<Rightarrow> bool" where
  "isSessionExpiredError error =
     (let msg = (case error of ErrorInstance message \<Rightarrow> toLowerCase message | NotAnError \<Rightarrow> [])
      in if somePatternIncluded msg SESSION_ERROR_PATTERNS then True
         else if someCompoundIncluded msg SESSION_ERROR_COMPOUND_PATTERNS then True
         else False)"

section \<open>utils: history reconstruction\<close>

text \<open>
  The strings of this part are JavaScript strings as they are: sequences of UTF-16 code
  units, so that \<open>length\<close>, \<open>slice\<close> and \<open>trim\<close> count and test what the code counts and
  tests. \<open>lit\<close> gives the code units of an ASCII literal.
\<close>

type_synonym jsString = "nat list"

definition lit :: "string \<Rightarrow> jsString" where
  "lit s = map of_char s"

text \<open>
  What \<open>String.prototype.trim\<close> strips: the white space and line terminator code
  points of ECMAScript (tab, LF, VT, FF, CR, space, no-break space, U+1680, U+2000 to
  U+200A, U+2028, U+2029, U+202F, U+205F, U+3000 and U+FEFF).
\<close>

definition isWhiteSpace :: "nat \<Rightarrow> bool" where
  "isWhiteSpace u =
     (u \<in> {0x0009, 0x000A, 0x000B, 0x000C, 0x000D, 0x0020, 0x00A0, 0x1680,
            0x2028, 0x2029, 0x202F, 0x205F, 0x3000, 0xFEFF}
      \<or> (0x2000 \<le> u \<and> u \<le> 0x200A))"

definition trim :: "jsString \<Rightarrow> jsString" where
  "trim s = rev (dropWhile isWhiteSpace (rev (dropWhile isWhiteSpace s)))"

text \<open>
  The fields of \<open>ToolCallInfo\<close> and \<open>ChatMessage\<close> that the functions read; an
  optional field is \<open>None\<close> when it is undefined. The tool call's \<open>name\<close> field is
  \<open>tcName\<close> here.
\<close>

record ToolCallInfo =
  tcName :: jsString
  status :: "jsString option"
  result :: "jsString option"

record ChatMessage =
  role :: jsString
  content :: "jsString option"
  contextFiles :: "jsString list option"
  toolCalls :: "ToolCallInfo list option"

definition formatContextFilesLine :: "jsString list \<Rightarrow> jsString" where
  "formatContextFilesLine files = lit ''Context files: ['' @ join (lit '', '') files @ lit '']''"

definition truncateToolResult :: "jsString \<Rightarrow> nat \<Rightarrow> jsString" where
  "truncateToolResult res maxLength =
     (if length res > maxLength then take maxLength res @ lit ''... (truncated)'' else res)"

definition formatToolCallForContext :: "ToolCallInfo \<Rightarrow> nat \<Rightarrow> jsString" where
  "formatToolCallForContext toolCall maxResultLength =
     (let st = (case status toolCall of None \<Rightarrow> lit ''completed'' | Some s \<Rightarrow> s);
          base = lit ''[Tool '' @ tcName toolCall @ lit '' status='' @ st @ lit '']''
      in case result toolCall of
           None \<Rightarrow> base
         | Some r \<Rightarrow>
             if length (trim r) > 0
             then base @ lit '' result: '' @ truncateToolResult r maxResultLength
             else base)"

definition formatContextLine :: "ChatMessage \<Rightarrow> jsString option" where
  "formatContextLine message =
     (case contextFiles message of
        None \<Rightarrow> None
      | Some files \<Rightarrow> if length files = 0 then None else Some (formatContextFilesLine files))"

text \<open>\<open>tc.result && tc.result.trim().length > 0\<close>, also used for \<open>message.content\<close>.\<close>

definition hasText :: "jsString option \<Rightarrow> bool" where
  "hasText v = (case v of None \<Rightarrow> False | Some s \<Rightarrow> s \<noteq> [] \<and> length (trim s) > 0)"

text \<open>
  The body of the loop of \<open>buildContextFromHistory\<close> for one message: \<open>None\<close> where the
  source says \<open>continue\<close>, otherwise the string pushed onto \<open>parts\<close>.
\<close>

definition historyPart :: "ChatMessage \<Rightarrow> jsString option" where
  "historyPart message =
     (if role message \<noteq> lit ''user'' \<and> role message \<noteq> lit ''assistant'' then None
      else
        let hasContent = hasText (content message);
            hasToolResult = (case toolCalls message of
                               None \<Rightarrow> False
                             | Some tcs \<Rightarrow> list_ex (\<lambda>tc. hasText (result tc)) tcs)
        in if role message = lit ''assistant'' \<and> \<not> hasContent \<and> \<not> hasToolResult then None
           else
             let roleLabel = (if role message = lit ''user'' then lit ''User'' else lit ''Assistant'');
                 trimmed = map_option trim (content message);
                 contextLine = formatContextLine message;
                 userPayload =
                   (case contextLine of
                      Some cl \<Rightarrow> (case trimmed of
                                    Some c \<Rightarrow> if c \<noteq> [] then Some (cl @ lit ''\<newline>\<newline>'' @ c) else Some cl
                                  | None \<Rightarrow> Some cl)
                    | None \<Rightarrow> trimmed);
                 lines0 = [case userPayload of
                             Some payload \<Rightarrow> (if payload \<noteq> [] then roleLabel @ lit '': '' @ payload
                                              else roleLabel @ lit '':'')
                           | None \<Rightarrow> roleLabel @ lit '':''];
                 lines1 =
                   (case toolCalls message of
                      Some tcs \<Rightarrow>
                        if role message = lit ''assistant'' \<and> length tcs \<noteq> 0
                        then (let toolLines = filter (\<lambda>l. l \<noteq> [])
                                      (map (\<lambda>tc. formatToolCallForContext tc 800) tcs)
                              in if length toolLines > 0 then lines0 @ toolLines else lines0)
                        else lines0
                    | None \<Rightarrow> lines0)
             in Some (join (lit ''\<newline>'') lines1))"

text \<open>The loop itself, with \<open>parts\<close> as its accumulator.\<close>

fun buildContextFromHistory_loop :: "ChatMessage list \<Rightarrow> jsString list \<Rightarrow> jsString list" where
  "buildContextFromHistory_loop [] parts = parts"
| "buildContextFromHistory_loop (message # rest) parts =
     (case historyPart message of
        None \<Rightarrow> buildContextFromHistory_loop rest parts
      | Some part \<Rightarrow> buildContextFromHistory_loop rest (parts @ [part]))"

definition buildContextFromHistory :: "ChatMessage list \<Rightarrow> jsString" where
  "buildContextFromHistory messages =
     join (lit ''\<newline>\<newline>'') (buildContextFromHistory_loop messages [])"

subsection \<open>The description of the rebuilt history, to compare with the code\<close>

definition trimmedContent :: "ChatMessage \<Rightarrow> jsString" where
  "trimmedContent m = (case content m of None \<Rightarrow> [] | Some c \<Rightarrow> trim c)"

definition toolCallsOf :: "ChatMessage \<Rightarrow> ToolCallInfo list" where
  "toolCallsOf m = (case toolCalls m of None \<Rightarrow> [] | Some tcs \<Rightarrow> tcs)"

definition hasTrimmedResult :: "ToolCallInfo \<Rightarrow> bool" where
  "hasTrimmedResult tc = (case result tc of None \<Rightarrow> False | Some r \<Rightarrow> trim r \<noteq> [])"

text \<open>A message is kept iff it is a user message, or an assistant message with something to show.\<close>

definition isKept :: "ChatMessage \<Rightarrow> bool" where
  "isKept m =
     (role m = lit ''user'' \<or>
      role m = lit ''assistant'' \<and>
        (trimmedContent m \<noteq> [] \<or> list_ex hasTrimmedResult (toolCallsOf m)))"

text \<open>
  The first line of a block: the role prefix; then, after a space, the context-files
  line when \<open>contextFiles\<close> is non-empty, a blank line, and the trimmed content.
\<close>

definition blockPrefix :: "ChatMessage \<Rightarrow> jsString" where
  "blockPrefix m = (if role m = lit ''user'' then lit ''User:'' else lit ''Assistant:'')"

definition blockPayload :: "ChatMessage \<Rightarrow> jsString" where
  "blockPayload m =
     (case contextFiles m of
        None \<Rightarrow> trimmedContent m
      | Some files \<Rightarrow>
          if files = [] then trimmedContent m
          else if trimmedContent m = [] then formatContextFilesLine files
          else formatContextFilesLine files @ lit ''\<newline>\<newline>'' @ trimmedContent m)"

definition blockHead :: "ChatMessage \<Rightarrow> jsString" where
  "blockHead m =
     (if blockPayload m = [] then blockPrefix m else blockPrefix m @ lit '' '' @ blockPayload m)"

text \<open>
  The line of one tool call: name and status, and the result when its trimmed text is
  not empty, cut to 800 code units with a mark when it is longer.
\<close>

definition toolLine :: "ToolCallInfo \<Rightarrow> jsString" where
  "toolLine tc =
     lit ''[Tool '' @ tcName tc @ lit '' status=''
       @ (case status tc of None \<Rightarrow> lit ''completed'' | Some s \<Rightarrow> s) @ lit '']''
       @ (case result tc of
            None \<Rightarrow> []
          | Some r \<Rightarrow>
              if trim r = [] then []
              else lit '' result: ''
                     @ (if 800 < length r then take 800 r @ lit ''... (truncated)'' else r))"

text \<open>An assistant block appends one such line per tool call.\<close>

definition blockToolLines :: "ChatMessage \<Rightarrow> jsString list" where
  "blockToolLines m = (if role m = lit ''assistant'' then map toolLine (toolCallsOf m) else [])"

definition messageBlock :: "ChatMessage \<Rightarrow> jsString" where
  "messageBlock m = join (lit ''\<newline>'') (blockHead m # blockToolLines m)"

text \<open>
  A short history: a user message with a context file and no-break spaces around its
  text, a system message, an assistant message whose content is one no-break space,
  and an assistant message with text and a tool call whose result has 801 code units.
\<close>

definition userMessage :: ChatMessage where
  "userMessage =
     \<lparr>role = lit ''user'', content = Some ([0x00A0] @ lit ''hi '' @ [0x00A0]),
      contextFiles = Some [lit ''a.md''], toolCalls = None\<rparr>"

definition systemMessage :: ChatMessage where
  "systemMessage =
     \<lparr>role = lit ''system'', content = Some (lit ''note''), contextFiles = None, toolCalls = None\<rparr>"

definition blankAssistantMessage :: ChatMessage where
  "blankAssistantMessage =
     \<lparr>role = lit ''assistant'', content = Some [0x00A0], contextFiles = None,
      toolCalls = Some [\<lparr>tcName = lit ''Read'', status = None, result = None\<rparr>]\<rparr>"

definition assistantMessage :: ChatMessage where
  "assistantMessage =
     \<lparr>role = lit ''assistant'', content = Some (lit ''ok''), contextFiles = None,
      toolCalls = Some [\<lparr>tcName = lit ''Grep'', status = Some (lit ''error''),
                        result = Some (replicate 801 0x78)\<rparr>]\<rparr>"

definition exampleHistory :: "ChatMessage list" where
  "exampleHistory = [userMessage, systemMessage, blankAssistantMessage, assistantMessage]"

text \<open>A history of one user message with a context file.\<close>

definition contextFileHistory :: "ChatMessage list" where
  "contextFileHistory =
     [\<lparr>role = lit ''user'', content = Some (lit ''hi''), contextFiles = Some [lit ''a.md''],
        toolCalls = None\<rparr>]"

section \<open>SettingsStorage\<close>

text \<open>A thrown exception, with its message.\<close>

datatype error = Thrown string

text \<open>What \<open>JSON.parse\<close> can return. Numbers are carried along and never inspected.\<close>

datatype json =
  JNull | JBool bool | JNum int | JStr string | JArr "json list" | JObj "(string \<times> json) list"

text \<open>
  A settings object is a map from field names to values. \<open>DEFAULT_SETTINGS\<close> is
  imported from the types module and is a parameter here, as are \<open>JSON.parse\<close>
  (which may throw) and \<open>JSON.stringify\<close>.
\<close>

type_synonym settings = "string \<rightharpoonup> json"

definition SETTINGS_PATH :: string where
  "SETTINGS_PATH = ''.claude/settings.json''"

text \<open>
  The \<open>VaultFileAdapter\<close> interface over a file store \<open>'fs\<close>: each call may throw;
  \<open>write\<close> returns the store it leaves behind.
\<close>

record 'fs VaultFileAdapter =
  adapter_exists :: "string \<Rightarrow> 'fs \<Rightarrow> error + bool"
  adapter_read :: "string \<Rightarrow> 'fs \<Rightarrow> error + string"
  adapter_write :: "string \<Rightarrow> string \<Rightarrow> 'fs \<Rightarrow> error + 'fs"

text \<open>A call's outcome: the lines it sent to \<open>console.error\<close>, and its value or the error it throws.\<close>

type_synonym 'a outcome = "(string \<times> error) list \<times> (error + 'a)"

text \<open>The decimal name of an index, as used for the keys of arrays and strings.\<close>

fun decimal :: "nat \<Rightarrow> string" where
  "decimal n =
     (if n < 10 then [char_of (48 + n)] else decimal (n div 10) @ [char_of (48 + n mod 10)])"

text \<open>The own enumerable properties that an object spread copies from a value.\<close>

definition ownProps :: "json \<Rightarrow> (string \<times> json) list" where
  "ownProps v =
     (case v of
        JObj members \<Rightarrow> members
      | JArr items \<Rightarrow> zip (map decimal [0..<length items]) items
      | JStr s \<Rightarrow> zip (map decimal [0..<length s]) (map (\<lambda>c. JStr [c]) s)
      | _ \<Rightarrow> [])"

text \<open>\<open>{ ...target, ...source }\<close>: each property of the source is assigned in order.\<close>

definition assign :: "string \<times> json \<Rightarrow> settings \<Rightarrow> settings" where
  "assign kv m = m(fst kv \<mapsto> snd kv)"

definition spread :: "settings \<Rightarrow> (string \<times> json) list \<Rightarrow> settings" where
  "spread target props = fold assign props target"

definition getDefaults :: "settings \<Rightarrow> settings" where
  "getDefaults DEFAULT_SETTINGS =
     DEFAULT_SETTINGS |`
       (- {''slashCommands'', ''lastEnvHash'', ''lastClaudeModel'', ''lastCustomModel''})"

text \<open>The \<open>try\<close> block of \<open>load\<close>: \<open>Inl\<close> is an exception that reaches the \<open>catch\<close>.\<close>

definition load_try ::
  "'fs VaultFileAdapter \<Rightarrow> (string \<Rightarrow> error + json) \<Rightarrow> settings \<Rightarrow> 'fs \<Rightarrow> error + settings" where
  "load_try adapter JSON_parse DEFAULT_SETTINGS fs =
     (case adapter_exists adapter SETTINGS_PATH fs of
        Inl e \<Rightarrow> Inl e
      | Inr ex \<Rightarrow>
          if \<not> ex then Inr (getDefaults DEFAULT_SETTINGS)
          else
            (case adapter_read adapter SETTINGS_PATH fs of
               Inl e \<Rightarrow> Inl e
             | Inr fileContent \<Rightarrow>
                 (case JSON_parse fileContent of
                    Inl e \<Rightarrow> Inl e
                  | Inr stored \<Rightarrow> Inr (spread (getDefaults DEFAULT_SETTINGS) (ownProps stored)))))"

definition load ::
  "'fs VaultFileAdapter \<Rightarrow> (string \<Rightarrow> error + json) \<Rightarrow> settings \<Rightarrow> 'fs \<Rightarrow> settings outcome" where
  "load adapter JSON_parse DEFAULT_SETTINGS fs =
     (case load_try adapter JSON_parse DEFAULT_SETTINGS fs of
        Inr loaded \<Rightarrow> ([], Inr loaded)
      | Inl e \<Rightarrow> ([(''[Claudian] Failed to load settings:'', e)], Inr (getDefaults DEFAULT_SETTINGS)))"

text \<open>\<open>save\<close>: the \<open>catch\<close> logs the error and throws it again.\<close>

definition save ::
  "'fs VaultFileAdapter \<Rightarrow> (settings \<Rightarrow> string) \<Rightarrow> settings \<Rightarrow> 'fs \<Rightarrow> 'fs outcome" where
  "save adapter JSON_stringify settings fs =
     (let fileContent = JSON_stringify settings
      in case adapter_write adapter SETTINGS_PATH fileContent fs of
           Inr fs' \<Rightarrow> ([], Inr fs')
         | Inl e \<Rightarrow> ([(''[Claudian] Failed to save settings:'', e)], Inl e))"

subsection \<open>Example adapters\<close>

text \<open>An adapter over a map from paths to contents, and one whose disk is read-only.\<close>

definition mapAdapter :: "(string \<rightharpoonup> string) VaultFileAdapter" where
  "mapAdapter =
     \<lparr>adapter_exists = (\<lambda>p fs. Inr (fs p \<noteq> None)),
      adapter_read = (\<lambda>p fs. case fs p of Some c \<Rightarrow> Inr c | None \<Rightarrow> Inl (Thrown ''ENOENT'')),
      adapter_write = (\<lambda>p c fs. Inr (fs(p \<mapsto> c)))\<rparr>"

definition readOnlyAdapter :: "(string \<rightharpoonup> string) VaultFileAdapter" where
  "readOnlyAdapter = mapAdapter\<lparr>adapter_write := (\<lambda>p c fs. Inl (Thrown ''EROFS''))\<rparr>"

text \<open>A parser that knows one document, and a printer that knows none.\<close>

definition exampleParse :: "string \<Rightarrow> error + json" where
  "exampleParse fileContent =
     (if fileContent = ''{\"model\":\"haiku\"}'' then Inr (JObj [(''model'', JStr ''haiku'')])
      else Inl (Thrown ''SyntaxError''))"

definition exampleStringify :: "settings \<Rightarrow> string" where
  "exampleStringify settings = ''{}''"

definition exampleDefaults :: settings where
  "exampleDefaults =
     [''model'' \<mapsto> JStr ''sonnet'', ''enableBlocklist'' \<mapsto> JBool True, ''lastEnvHash'' \<mapsto> JStr ''''] "

definition storedVault :: "string \<rightharpoonup> string" where
  "storedVault = [''.claude/settings.json'' \<mapsto> ''{\"model\":\"haiku\"}'']"

definition brokenVault :: "string \<rightharpoonup> string" where
  "brokenVault = [''.claude/settings.json'' \<mapsto> ''{'']"

section \<open>utils: path containment\<close>

text \<open>
  The functions of Node's \<open>fs\<close>, \<open>os\<close> and \<open>path\<close> modules that the path checks call,
  over one snapshot of the file system. \<open>fs_realpath\<close> is \<open>None\<close> where
  \<open>realpathSync\<close> throws; \<open>path_resolve\<close> and \<open>path_join\<close> take their argument list.
\<close>

record node =
  fs_realpath :: "string \<Rightarrow> string option"
  fs_existsSync :: "string \<Rightarrow> bool"
  os_homedir :: string
  path_sep :: string
  path_isAbsolute :: "string \<Rightarrow> bool"
  path_resolve :: "string list \<Rightarrow> string"
  path_join :: "string list \<Rightarrow> string"
  path_dirname :: "string \<Rightarrow> string"
  path_basename :: "string \<Rightarrow> string"

text \<open>
  The \<open>while (true)\<close> loop of \<open>resolveRealPath\<close>. The inner \<open>try\<close> returns when
  \<open>current\<close> exists and its realpath is found; an exception there is ignored and the
  walk goes on to the parent. The result is \<open>None\<close> when the loop never returns.
\<close>

partial_function (option) resolveRealPath_loop ::
  "node \<Rightarrow> string \<Rightarrow> string \<Rightarrow> string list \<Rightarrow> string option" where
  "resolveRealPath_loop nd absolute current suffixAcc =
     (case (if fs_existsSync nd current then fs_realpath nd current else None) of
        Some resolvedExisting \<Rightarrow>
          Some (if length suffixAcc > 0 then path_join nd (resolvedExisting # rev suffixAcc)
                else resolvedExisting)
      | None \<Rightarrow>
          (let parent = path_dirname nd current
           in if parent = current then Some absolute
              else resolveRealPath_loop nd absolute parent (suffixAcc @ [path_basename nd current])))"

declare resolveRealPath_loop.simps [code]

definition resolveRealPath :: "node \<Rightarrow> string \<Rightarrow> string option" where
  "resolveRealPath nd p =
     (case fs_realpath nd p of
        Some resolved \<Rightarrow> Some resolved
      | None \<Rightarrow>
          (let absolute = path_resolve nd [p]
           in resolveRealPath_loop nd absolute absolute []))"

definition isPathWithinVault :: "node \<Rightarrow> string \<Rightarrow> string \<Rightarrow> bool option" where
  "isPathWithinVault nd candidatePath vaultPath =
     (case resolveRealPath nd vaultPath of
        None \<Rightarrow> None
      | Some vaultReal \<Rightarrow>
          (let expandedPath =
                 (if startsWith candidatePath ''~/''
                  then path_join nd [os_homedir nd, drop 2 candidatePath]
                  else candidatePath);
               absCandidate =
                 (if path_isAbsolute nd expandedPath then expandedPath
                  else path_resolve nd [vaultPath, expandedPath])
           in case resolveRealPath nd absCandidate of
                None \<Rightarrow> None
              | Some resolvedCandidate \<Rightarrow>
                  Some (resolvedCandidate = vaultReal \<or>
                        startsWith resolvedCandidate (vaultReal @ path_sep nd))))"

text \<open>The \<open>for\<close> loop of \<open>isPathInAllowedExportPaths\<close>, which returns at the first match.\<close>

fun allowedExportPaths_loop :: "node \<Rightarrow> string \<Rightarrow> string list \<Rightarrow> bool option" where
  "allowedExportPaths_loop nd resolvedCandidate [] = Some False"
| "allowedExportPaths_loop nd resolvedCandidate (exportPath # rest) =
     (let expandedExport =
            (if startsWith exportPath ''~/''
             then path_join nd [os_homedir nd, drop 2 exportPath]
             else exportPath)
      in case resolveRealPath nd expandedExport of
           None \<Rightarrow> None
         | Some resolvedExport \<Rightarrow>
             if resolvedCandidate = resolvedExport \<or>
                startsWith resolvedCandidate (resolvedExport @ path_sep nd)
             then Some True
             else allowedExportPaths_loop nd resolvedCandidate rest)"

text \<open>The list argument is \<open>None\<close> when the caller passes \<open>undefined\<close> or \<open>null\<close>.\<close>

definition isPathInAllowedExportPaths ::
  "node \<Rightarrow> string \<Rightarrow> string list option \<Rightarrow> string \<Rightarrow> bool option" where
  "isPathInAllowedExportPaths nd candidatePath allowedExportPaths vaultPath =
     (case allowedExportPaths of
        None \<Rightarrow> Some False
      | Some exportPaths \<Rightarrow>
          if length exportPaths = 0 then Some False
          else
            (let expandedCandidate =
                   (if startsWith candidatePath ''~/''
                    then path_join nd [os_homedir nd, drop 2 candidatePath]
                    else candidatePath);
                 absCandidate =
                   (if path_isAbsolute nd expandedCandidate then expandedCandidate
                    else path_resolve nd [vaultPath, expandedCandidate])
             in case resolveRealPath nd absCandidate of
                  None \<Rightarrow> None
                | Some resolvedCandidate \<Rightarrow>
                    allowedExportPaths_loop nd resolvedCandidate exportPaths))"

subsection \<open>Best-effort resolution, as described\<close>

text \<open>The \<open>i\<close>-th ancestor of a path: \<open>path.dirname\<close> applied \<open>i\<close> times.\<close>

primrec ancestor :: "node \<Rightarrow> string \<Rightarrow> nat \<Rightarrow> string" where
  "ancestor nd a 0 = a"
| "ancestor nd a (Suc i) = path_dirname nd (ancestor nd a i)"

text \<open>An ancestor can be resolved when it exists and its realpath is found.\<close>

definition resolvable :: "node \<Rightarrow> string \<Rightarrow> bool" where
  "resolvable nd x = (fs_existsSync nd x \<and> fs_realpath nd x \<noteq> None)"

text \<open>The segments between the \<open>i\<close>-th ancestor and the path itself, from the top down.\<close>

definition remainingSegments :: "node \<Rightarrow> string \<Rightarrow> nat \<Rightarrow> string list" where
  "remainingSegments nd a i = map (\<lambda>j. path_basename nd (ancestor nd a j)) (rev [0..<i])"

definition reappend :: "node \<Rightarrow> string \<Rightarrow> string list \<Rightarrow> string" where
  "reappend nd r segments = (if segments = [] then r else path_join nd (r # segments))"

text \<open>
  \<open>bestEffortRealPath nd p r\<close>: \<open>r\<close> is the realpath of \<open>p\<close> when that is found;
  otherwise the realpath of the nearest ancestor of the absolute path that exists and
  resolves, with the remaining segments re-appended; and the absolute path itself when
  the walk reaches a root without finding one.
\<close>

inductive bestEffortRealPath :: "node \<Rightarrow> string \<Rightarrow> string \<Rightarrow> bool" for nd :: node where
  whole: "fs_realpath nd p = Some r \<Longrightarrow> bestEffortRealPath nd p r"
| nearest:
    "fs_realpath nd p = None \<Longrightarrow> a = path_resolve nd [p] \<Longrightarrow>
     fs_existsSync nd (ancestor nd a i) \<Longrightarrow> fs_realpath nd (ancestor nd a i) = Some r \<Longrightarrow>
     (\<forall>j<i. \<not> resolvable nd (ancestor nd a j)) \<Longrightarrow>
     bestEffortRealPath nd p (reappend nd r (remainingSegments nd a i))"
| unresolved:
    "fs_realpath nd p = None \<Longrightarrow> a = path_resolve nd [p] \<Longrightarrow>
     path_dirname nd (ancestor nd a k) = ancestor nd a k \<Longrightarrow>
     (\<forall>j\<le>k. \<not> resolvable nd (ancestor nd a j)) \<Longrightarrow>
     bestEffortRealPath nd p a"

text \<open>
  What the loop has done when it returns \<open>r\<close> from \<open>current = c\<close> with the segments
  \<open>sfx\<close> already passed: found the nearest resolvable ancestor of \<open>c\<close>, or reached a root.
\<close>

definition walked :: "node \<Rightarrow> string \<Rightarrow> string \<Rightarrow> string list \<Rightarrow> string \<Rightarrow> bool" where
  "walked nd a c sfx r =
     ((\<exists>i q. fs_existsSync nd (ancestor nd c i) \<and> fs_realpath nd (ancestor nd c i) = Some q \<and>
         (\<forall>j<i. \<not> resolvable nd (ancestor nd c j)) \<and>
         r = reappend nd q (rev (sfx @ map (\<lambda>j. path_basename nd (ancestor nd c j)) [0..<i])))
      \<or> (\<exists>k. path_dirname nd (ancestor nd c k) = ancestor nd c k \<and>
            (\<forall>j\<le>k. \<not> resolvable nd (ancestor nd c j)) \<and> r = a))"

text \<open>The candidate after \<open>~/\<close> expansion, made absolute against the vault path.\<close>

definition expandHome :: "node \<Rightarrow> string \<Rightarrow> string" where
  "expandHome nd p = (if prefix ''~/'' p then path_join nd [os_homedir nd, drop 2 p] else p)"

definition absoluteCandidate :: "node \<Rightarrow> string \<Rightarrow> string \<Rightarrow> string" where
  "absoluteCandidate nd candidatePath vaultPath =
     (if path_isAbsolute nd (expandHome nd candidatePath) then expandHome nd candidatePath
      else path_resolve nd [vaultPath, expandHome nd candidatePath])"

subsection \<open>An example file system\<close>

text \<open>
  A vault at \<open>/vault\<close> with a folder \<open>notes\<close>, a home directory, an export folder, and a
  symbolic link \<open>/vault/out\<close> that points to the export folder. Paths are split at
  \<open>/\<close>.
\<close>

definition exampleRealpath :: "string \<Rightarrow> string option" where
  "exampleRealpath p =
     (if p \<in> {''/'', ''/vault'', ''/vault/notes'', ''/home'', ''/home/u'', ''/home/u/export''}
      then Some p
      else if p = ''/vault/out'' then Some ''/home/u/export''
      else None)"

definition exampleDirname :: "string \<Rightarrow> string" where
  "exampleDirname p =
     (let d = rev (drop 1 (dropWhile (\<lambda>c. c \<noteq> CHR ''/'') (rev p)))
      in if d = [] then ''/'' else d)"

fun collapseSlashes :: "string \<Rightarrow> string" where
  "collapseSlashes (a # b # r) =
     (if a = CHR ''/'' \<and> b = CHR ''/'' then collapseSlashes (b # r)
      else a # collapseSlashes (b # r))"
| "collapseSlashes s = s"

definition exampleNode :: node where
  "exampleNode =
     \<lparr>fs_realpath = exampleRealpath,
      fs_existsSync = (\<lambda>p. exampleRealpath p \<noteq> None),
      os_homedir = ''/home/u'',
      path_sep = ''/'',
      path_isAbsolute = (\<lambda>p. prefix ''/'' p),
      path_resolve = (\<lambda>segments. join ''/'' (dropWhile (\<lambda>s. \<not> prefix ''/'' s) segments)),
      path_join = (\<lambda>segments. collapseSlashes (join ''/'' segments)),
      path_dirname = exampleDirname,
      path_basename = (\<lambda>p. rev (takeWhile (\<lambda>c. c \<noteq> CHR ''/'') (rev p)))\<rparr>"

section \<open>Theorems\<close>

lemma find_append_split:
  "List.find P (xs @ ys) = (case List.find P xs of None \<Rightarrow> List.find P ys | Some x \<Rightarrow> Some x)"
  by (induction xs) auto

lemma getActiveServers_loop_lookup:
  "n \<noteq> ''__proto__'' \<Longrightarrow>
   ownEntries (getActiveServers_loop M xs r) n =
     (case List.find (\<lambda>s. name s = n \<and> isActive M s) (rev xs) of
        Some s \<Rightarrow> Some (config s) | None \<Rightarrow> ownEntries r n)"
proof (induction xs arbitrary: r)
  case Nil
  then show ?case by simp
next
  case (Cons s xs)
  note IH = Cons.IH [OF Cons.prems]
  show ?case
  proof (cases "isActive M s")
    case False
    then have "getActiveServers_loop M (s # xs) r = getActiveServers_loop M xs r"
      by (auto simp: isActive_def)
    with False show ?thesis
      by (cases "List.find (\<lambda>s. name s = n \<and> isActive M s) (rev xs)")
        (simp_all add: IH find_append_split)
  next
    case True
    then have step: "getActiveServers_loop M (s # xs) r
        = getActiveServers_loop M xs (setProperty r (name s) (config s))"
      by (auto simp: isActive_def)
    have upd: "ownEntries (setProperty r (name s) (config s)) n
        = (if name s = n then Some (config s) else ownEntries r n)"
      using Cons.prems by (auto simp: setProperty_def)
    show ?thesis
      unfolding step
      by (cases "List.find (\<lambda>s. name s = n \<and> isActive M s) (rev xs)")
        (simp_all add: IH find_append_split upd True)
  qed
qed

lemma getActiveServers_lookup:
  assumes "n \<noteq> ''__proto__''"
  shows "ownEntries (fst (getActiveServers M this)) n =
     (case List.find (\<lambda>s. name s = n \<and> isActive M s) (rev (servers this)) of
        Some s \<Rightarrow> Some (config s) | None \<Rightarrow> None)"
  by (cases "List.find (\<lambda>s. name s = n \<and> isActive M s) (rev (servers this))")
    (simp_all add: getActiveServers_def getActiveServers_loop_lookup [OF assms] emptyRecord_def)

text \<open>A server named \<open>__proto__\<close> never becomes an own entry of the result.\<close>

lemma getActiveServers_loop_proto:
  "ownEntries (getActiveServers_loop M xs r) ''__proto__'' = ownEntries r ''__proto__''"
  by (induction xs arbitrary: r) (simp_all add: setProperty_def)

lemma find_Some_member: "List.find P xs = Some x \<Longrightarrow> x \<in> set xs \<and> P x"
  by (induction xs) (auto split: if_splits)

lemma find_unique_name:
  assumes "distinct (map name xs)" "s \<in> set xs"
  shows "List.find (\<lambda>t. name t = name s \<and> Q t) (rev xs) = (if Q s then Some s else None)"
proof (cases "Q s")
  case True
  from assms(2) True obtain t where t: "List.find (\<lambda>t. name t = name s \<and> Q t) (rev xs) = Some t"
    by (cases "List.find (\<lambda>t. name t = name s \<and> Q t) (rev xs)") (auto simp: find_None_iff)
  then have "t \<in> set (rev xs)" "name t = name s"
    by (auto dest: find_Some_member)
  then have "t \<in> set xs" "name t = name s"
    by simp_all
  with assms have "t = s"
    by (meson distinct_map inj_onD)
  with t True show ?thesis by simp
next
  case False
  have "\<And>t. t \<in> set xs \<Longrightarrow> name t = name s \<Longrightarrow> t = s"
    using assms by (meson distinct_map inj_onD)
  with False show ?thesis
    by (auto simp: find_None_iff)
qed

subsection \<open>C2: which servers getActiveServers includes\<close>

text \<open>
  C2 as stated fails when two configured servers share a name: the result is keyed by
  name, so the later server overwrites the earlier one. Here the first server is
  configured, enabled and not context-saving, yet the result does not map its name to
  its config.
\<close>

theorem getActiveServers_duplicate_name:
  "servers twoServersOneName ! 0 \<in> set (servers twoServersOneName) \<and>
   enabled (servers twoServersOneName ! 0) \<and>
   \<not> contextSaving (servers twoServersOneName ! 0) \<and>
   ownEntries (fst (getActiveServers {} twoServersOneName)) (name (servers twoServersOneName ! 0))
     \<noteq> Some (config (servers twoServersOneName ! 0))"
  by (simp add: getActiveServers_def twoServersOneName_def emptyRecord_def setProperty_def)

text \<open>
  C2 (amended). For every list of configured servers, every mention set and every name
  other than \<open>__proto__\<close>: the result has an entry for the name iff some configured
  server of that name is enabled and is either not context-saving or mentioned, and
  the entry is the config of the last such server. When the configured names are
  pairwise distinct, a server whose name is not \<open>__proto__\<close> is included, keyed by
  its name and mapped to its config, iff it is enabled and (not context-saving or
  mentioned).
\<close>

theorem getActiveServers_includes:
  "(n \<noteq> ''__proto__'' \<longrightarrow>
      ownEntries (fst (getActiveServers mentionedNames this)) n =
        (case List.find (\<lambda>s. name s = n \<and> enabled s \<and> (\<not> contextSaving s \<or> name s \<in> mentionedNames))
                (rev (servers this)) of
           Some s \<Rightarrow> Some (config s) | None \<Rightarrow> None))
   \<and> (distinct (map name (servers this)) \<longrightarrow>
       (\<forall>s \<in> set (servers this). name s \<noteq> ''__proto__'' \<longrightarrow>
          (ownEntries (fst (getActiveServers mentionedNames this)) (name s) = Some (config s))
            = (enabled s \<and> (\<not> contextSaving s \<or> name s \<in> mentionedNames))))
   \<and> dom (ownEntries (fst (getActiveServers mentionedNames this))) - {''__proto__''}
        = name ` {s \<in> set (servers this).
            enabled s \<and> (\<not> contextSaving s \<or> name s \<in> mentionedNames)} - {''__proto__''}"
proof (intro conjI impI ballI)
  assume "n \<noteq> ''__proto__''"
  then show "ownEntries (fst (getActiveServers mentionedNames this)) n =
     (case List.find (\<lambda>s. name s = n \<and> enabled s \<and> (\<not> contextSaving s \<or> name s \<in> mentionedNames))
             (rev (servers this)) of
        Some s \<Rightarrow> Some (config s) | None \<Rightarrow> None)"
    by (simp add: getActiveServers_lookup isActive_def)
next
  fix s
  assume "distinct (map name (servers this))" "s \<in> set (servers this)" "name s \<noteq> ''__proto__''"
  then show "(ownEntries (fst (getActiveServers mentionedNames this)) (name s) = Some (config s))
            = (enabled s \<and> (\<not> contextSaving s \<or> name s \<in> mentionedNames))"
    by (simp add: getActiveServers_lookup find_unique_name isActive_def)
next
  have "(n \<in> dom (ownEntries (fst (getActiveServers mentionedNames this))))
      = (n \<in> name ` {s \<in> set (servers this).
            enabled s \<and> (\<not> contextSaving s \<or> name s \<in> mentionedNames)})"
    if "n \<noteq> ''__proto__''" for n
  proof -
    have "(ownEntries (fst (getActiveServers mentionedNames this)) n \<noteq> None)
        = (\<exists>s \<in> set (rev (servers this)). name s = n \<and> isActive mentionedNames s)"
    proof (cases "List.find (\<lambda>s. name s = n \<and> isActive mentionedNames s) (rev (servers this))")
      case None
      have l: "ownEntries (fst (getActiveServers mentionedNames this)) n = None"
        unfolding getActiveServers_lookup [OF that] None by simp
      have r: "\<not> (\<exists>s \<in> set (rev (servers this)). name s = n \<and> isActive mentionedNames s)"
        using None unfolding find_None_iff by blast
      from l r show ?thesis by blast
    next
      case (Some a)
      have l: "ownEntries (fst (getActiveServers mentionedNames this)) n = Some (config a)"
        unfolding getActiveServers_lookup [OF that] Some by simp
      from find_Some_member [OF Some]
      have r: "\<exists>s \<in> set (rev (servers this)). name s = n \<and> isActive mentionedNames s"
        by blast
      from l r show ?thesis by simp
    qed
    then show ?thesis
      by (auto simp: dom_def isActive_def image_iff)
  qed
  then show "dom (ownEntries (fst (getActiveServers mentionedNames this))) - {''__proto__''}
        = name ` {s \<in> set (servers this).
            enabled s \<and> (\<not> contextSaving s \<or> name s \<in> mentionedNames)} - {''__proto__''}"
    by blast
qed

text \<open>
  Three servers with distinct names: an always-on one, a context-saving one and a
  disabled one, with and without a mention.
\<close>

theorem getActiveServers_includes_witness:
  "distinct (map name (servers threeServers)) \<and>
   ownEntries (fst (getActiveServers {''git''} threeServers)) ''fs'' = Some 1 \<and>
   ownEntries (fst (getActiveServers {''git''} threeServers)) ''git'' = Some 2 \<and>
   ownEntries (fst (getActiveServers {} threeServers)) ''git'' = None \<and>
   ownEntries (fst (getActiveServers {''web''} threeServers)) ''web'' = None"
  using getActiveServers_includes [of "''fs''" "{''git''}" threeServers]
    getActiveServers_includes [of "''git''" "{''git''}" threeServers]
    getActiveServers_includes [of "''git''" "{}" threeServers]
    getActiveServers_includes [of "''web''" "{''web''}" threeServers]
  by (simp add: threeServers_def)

subsection \<open>C8: getActiveServers leaves the server list alone\<close>

text \<open>
  C8. For every mention set, the service after a call to getActiveServers is the
  service before it, so getServers returns the same list (same elements, order, flags
  and configs), and a second call with the same mention set returns the same result.
\<close>

theorem getActiveServers_frame:
  "getServers (snd (getActiveServers mentionedNames this)) = getServers this
   \<and> snd (getActiveServers mentionedNames this) = this
   \<and> fst (getActiveServers mentionedNames (snd (getActiveServers mentionedNames this)))
       = fst (getActiveServers mentionedNames this)"
  by (simp add: getActiveServers_def)

theorem getActiveServers_frame_witness:
  "getServers (snd (getActiveServers {''git''} threeServers)) = servers threeServers
   \<and> snd (getActiveServers {''git''} threeServers) = threeServers"
  using getActiveServers_frame [of "{''git''}" threeServers]
  by (simp add: getServers_def)

subsection \<open>C9: the read-only hook\<close>

text \<open>
  C9. For every tool name, the hook answers \<open>{continue: true}\<close> iff the name is one of
  Read, Grep, Glob, LS, WebSearch, WebFetch; for every other name it answers
  \<open>continue: false\<close> with permissionDecision deny. So the hook lets a call continue
  only for those six tools.
\<close>

theorem createReadOnlyHook_allows_only_read_only_tools:
  "(createReadOnlyHook toolName = \<lparr>continue = True, hookSpecific = None\<rparr>)
     = (toolName \<in> {''Read'', ''Grep'', ''Glob'', ''LS'', ''WebSearch'', ''WebFetch''})
   \<and> (toolName \<notin> {''Read'', ''Grep'', ''Glob'', ''LS'', ''WebSearch'', ''WebFetch''} \<longrightarrow>
        continue (createReadOnlyHook toolName) = False \<and>
        map_option permissionDecision (hookSpecific (createReadOnlyHook toolName)) = Some ''deny'')
   \<and> (continue (createReadOnlyHook toolName)
        = (toolName \<in> {''Read'', ''Grep'', ''Glob'', ''LS'', ''WebSearch'', ''WebFetch''}))"
  by (simp add: createReadOnlyHook_def READ_ONLY_TOOLS_def)

theorem createReadOnlyHook_witness:
  "createReadOnlyHook ''Grep'' = \<lparr>continue = True, hookSpecific = None\<rparr> \<and>
   continue (createReadOnlyHook ''Write'') = False \<and>
   map_option permissionDecision (hookSpecific (createReadOnlyHook ''Write'')) = Some ''deny''"
  using createReadOnlyHook_allows_only_read_only_tools [of "''Grep''"]
    createReadOnlyHook_allows_only_read_only_tools [of "''Write''"]
  by simp

subsection \<open>C10: the two versions of getCurrentModelFromEnvironment\<close>

text \<open>
  C10 as stated fails: with an OPUS and a HAIKU default both set, the earlier version
  returns the OPUS model and the later one the HAIKU model.
\<close>

theorem getCurrentModel_versions_differ:
  "getCurrentModelFromEnvironment_old opusAndHaikuEnv
     \<noteq> getCurrentModelFromEnvironment_new opusAndHaikuEnv"
  by (simp add: getCurrentModelFromEnvironment_old_def getCurrentModelFromEnvironment_new_def
      opusAndHaikuEnv_def truthy_def)

text \<open>
  C10 (amended). For every environment-variable map, the earlier version returns
  ANTHROPIC_MODEL when it is non-empty and otherwise the first non-empty of the OPUS,
  SONNET, HAIKU defaults; the later version does the same with the order HAIKU, SONNET,
  OPUS. The two return the same value iff ANTHROPIC_MODEL is non-empty or those two
  first non-empty defaults have the same value; in particular whenever at most one of
  the three defaults is non-empty.
\<close>

theorem getCurrentModel_versions_agree:
  "(getCurrentModelFromEnvironment_old envVars = getCurrentModelFromEnvironment_new envVars)
     = (truthy (envVars ''ANTHROPIC_MODEL'') \<or>
        firstNonEmpty envVars [''ANTHROPIC_DEFAULT_OPUS_MODEL'', ''ANTHROPIC_DEFAULT_SONNET_MODEL'',
            ''ANTHROPIC_DEFAULT_HAIKU_MODEL'']
          = firstNonEmpty envVars [''ANTHROPIC_DEFAULT_HAIKU_MODEL'', ''ANTHROPIC_DEFAULT_SONNET_MODEL'',
              ''ANTHROPIC_DEFAULT_OPUS_MODEL''])
   \<and> getCurrentModelFromEnvironment_old envVars
       = (if truthy (envVars ''ANTHROPIC_MODEL'') then envVars ''ANTHROPIC_MODEL''
          else firstNonEmpty envVars [''ANTHROPIC_DEFAULT_OPUS_MODEL'',
                 ''ANTHROPIC_DEFAULT_SONNET_MODEL'', ''ANTHROPIC_DEFAULT_HAIKU_MODEL''])
   \<and> getCurrentModelFromEnvironment_new envVars
       = (if truthy (envVars ''ANTHROPIC_MODEL'') then envVars ''ANTHROPIC_MODEL''
          else firstNonEmpty envVars [''ANTHROPIC_DEFAULT_HAIKU_MODEL'',
                 ''ANTHROPIC_DEFAULT_SONNET_MODEL'', ''ANTHROPIC_DEFAULT_OPUS_MODEL''])
   \<and> (\<not> (truthy (envVars ''ANTHROPIC_DEFAULT_OPUS_MODEL'') \<and> truthy (envVars ''ANTHROPIC_DEFAULT_SONNET_MODEL'')) \<and>
       \<not> (truthy (envVars ''ANTHROPIC_DEFAULT_OPUS_MODEL'') \<and> truthy (envVars ''ANTHROPIC_DEFAULT_HAIKU_MODEL'')) \<and>
       \<not> (truthy (envVars ''ANTHROPIC_DEFAULT_SONNET_MODEL'') \<and> truthy (envVars ''ANTHROPIC_DEFAULT_HAIKU_MODEL''))
       \<longrightarrow> getCurrentModelFromEnvironment_old envVars = getCurrentModelFromEnvironment_new envVars)"
  unfolding getCurrentModelFromEnvironment_old_def getCurrentModelFromEnvironment_new_def
  by (auto simp: truthy_def split: option.splits)

text \<open>
  Agreement with two defaults set to the same model, and with one default set; the
  environment of the counterexample is told apart by the same condition.
\<close>

theorem getCurrentModel_versions_agree_witness:
  "getCurrentModelFromEnvironment_old sameOpusAndHaikuEnv = Some ''m'' \<and>
   getCurrentModelFromEnvironment_new sameOpusAndHaikuEnv = Some ''m'' \<and>
   getCurrentModelFromEnvironment_old sonnetOnlyEnv = getCurrentModelFromEnvironment_new sonnetOnlyEnv \<and>
   firstNonEmpty opusAndHaikuEnv [''ANTHROPIC_DEFAULT_OPUS_MODEL'', ''ANTHROPIC_DEFAULT_SONNET_MODEL'',
       ''ANTHROPIC_DEFAULT_HAIKU_MODEL'']
     \<noteq> firstNonEmpty opusAndHaikuEnv [''ANTHROPIC_DEFAULT_HAIKU_MODEL'', ''ANTHROPIC_DEFAULT_SONNET_MODEL'',
         ''ANTHROPIC_DEFAULT_OPUS_MODEL'']"
proof -
  have a: "getCurrentModelFromEnvironment_old sameOpusAndHaikuEnv = Some ''m''"
    "getCurrentModelFromEnvironment_new sameOpusAndHaikuEnv = Some ''m''"
    using getCurrentModel_versions_agree [of sameOpusAndHaikuEnv]
    by (simp_all add: sameOpusAndHaikuEnv_def truthy_def)
  have b: "getCurrentModelFromEnvironment_old sonnetOnlyEnv = getCurrentModelFromEnvironment_new sonnetOnlyEnv"
    using getCurrentModel_versions_agree [of sonnetOnlyEnv]
    by (simp add: sonnetOnlyEnv_def truthy_def)
  have c: "firstNonEmpty opusAndHaikuEnv [''ANTHROPIC_DEFAULT_OPUS_MODEL'', ''ANTHROPIC_DEFAULT_SONNET_MODEL'',
       ''ANTHROPIC_DEFAULT_HAIKU_MODEL'']
     \<noteq> firstNonEmpty opusAndHaikuEnv [''ANTHROPIC_DEFAULT_HAIKU_MODEL'', ''ANTHROPIC_DEFAULT_SONNET_MODEL'',
         ''ANTHROPIC_DEFAULT_OPUS_MODEL'']"
    by (simp add: opusAndHaikuEnv_def truthy_def)
  from a b c show ?thesis by simp
qed

subsection \<open>C3: isSessionExpiredError\<close>

lemma startsWith_prefix: "startsWith s p = prefix p s"
  by (induction s p rule: startsWith.induct) auto

lemma includes_sublist: "includes_str s p = sublist p s"
  by (induction s) (auto simp: startsWith_prefix sublist_Cons_right)

lemma somePatternIncluded_iff: "somePatternIncluded msg ps = (\<exists>p \<in> set ps. sublist p msg)"
  by (induction ps) (auto simp: includes_sublist)

lemma everyPartIncluded_iff: "everyPartIncluded msg ps = (\<forall>p \<in> set ps. sublist p msg)"
  by (induction ps) (auto simp: includes_sublist)

lemma someCompoundIncluded_iff:
  "someCompoundIncluded msg cs = (\<exists>c \<in> set cs. \<forall>p \<in> set c. sublist p msg)"
  by (induction cs) (auto simp: everyPartIncluded_iff)

text \<open>
  C3. For every input value, isSessionExpiredError returns true iff the lower-cased
  message (the empty string when the input is not an Error instance) contains one of
  the five fixed substrings, or contains both words of one of the three fixed pairs.
  A string contains another when the other is a contiguous part of it (\<open>sublist\<close>).
\<close>

theorem isSessionExpiredError_iff:
  "isSessionExpiredError error =
     (let msg = (case error of ErrorInstance message \<Rightarrow> toLowerCase message | NotAnError \<Rightarrow> [])
      in sublist ''session expired'' msg \<or> sublist ''session not found'' msg \<or>
         sublist ''invalid session'' msg \<or> sublist ''session invalid'' msg \<or>
         sublist ''process exited with code'' msg \<or>
         sublist ''session'' msg \<and> sublist ''expired'' msg \<or>
         sublist ''resume'' msg \<and> sublist ''failed'' msg \<or>
         sublist ''resume'' msg \<and> sublist ''error'' msg)"
  unfolding isSessionExpiredError_def Let_def somePatternIncluded_iff someCompoundIncluded_iff
    SESSION_ERROR_PATTERNS_def SESSION_ERROR_COMPOUND_PATTERNS_def
  by auto

theorem isSessionExpiredError_witness:
  "isSessionExpiredError (ErrorInstance ''Resume FAILED: no conversation'') \<and>
   sublist ''resume'' (toLowerCase ''Resume FAILED: no conversation'') \<and>
   sublist ''failed'' (toLowerCase ''Resume FAILED: no conversation'') \<and>
   \<not> isSessionExpiredError NotAnError"
proof -
  have a: "sublist ''resume'' (toLowerCase ''Resume FAILED: no conversation'')"
    by code_simp
  have b: "sublist ''failed'' (toLowerCase ''Resume FAILED: no conversation'')"
    by code_simp
  show ?thesis
    using isSessionExpiredError_iff [of "ErrorInstance ''Resume FAILED: no conversation''"]
      isSessionExpiredError_iff [of NotAnError] a b
    by simp
qed

subsection \<open>C7: buildContextFromHistory\<close>

lemma lit_eq_Nil: "(lit s = []) = (s = [])"
  by (simp add: lit_def)

lemma lit_append: "lit (a @ b) = lit a @ lit b"
  by (simp add: lit_def)

lemma user_not_assistant: "lit ''user'' \<noteq> lit ''assistant''"
  by (simp add: lit_def)

lemma trim_Nil: "trim [] = []"
  by (simp add: trim_def)

lemma hasText_iff: "hasText v = (case v of None \<Rightarrow> False | Some s \<Rightarrow> trim s \<noteq> [])"
  by (auto simp: hasText_def trim_Nil split: option.splits)

lemma formatToolCallForContext_toolLine: "formatToolCallForContext tc 800 = toolLine tc"
  by (simp add: formatToolCallForContext_def toolLine_def truncateToolResult_def Let_def
      split: option.splits)

lemma toolLine_nonempty: "toolLine tc \<noteq> []"
  by (simp add: toolLine_def lit_eq_Nil)

lemma toolLines_unfiltered:
  "filter (\<lambda>l. l \<noteq> []) (map (\<lambda>tc. formatToolCallForContext tc 800) tcs) = map toolLine tcs"
  by (induction tcs) (simp_all add: formatToolCallForContext_toolLine toolLine_nonempty)

lemma formatContextFilesLine_nonempty: "formatContextFilesLine files \<noteq> []"
  by (simp add: formatContextFilesLine_def lit_eq_Nil)

lemma historyPart_None: "\<not> isKept m \<Longrightarrow> historyPart m = None"
  by (auto simp: historyPart_def isKept_def Let_def hasText_iff trimmedContent_def
      toolCallsOf_def hasTrimmedResult_def list_ex_iff split: option.splits)

lemma not_kept_conds:
  "isKept m \<Longrightarrow> \<not> (role m \<noteq> lit ''user'' \<and> role m \<noteq> lit ''assistant'')"
  "isKept m \<Longrightarrow> \<not> (role m = lit ''assistant'' \<and> \<not> hasText (content m) \<and>
      \<not> (case toolCalls m of None \<Rightarrow> False | Some tcs \<Rightarrow> list_ex (\<lambda>tc. hasText (result tc)) tcs))"
  by (cases "toolCalls m"; cases "content m";
      auto simp: isKept_def hasText_iff trimmedContent_def toolCallsOf_def hasTrimmedResult_def
        list_ex_iff user_not_assistant split: option.splits)+

lemma head_line:
  "(case (case formatContextLine m of
            Some cl \<Rightarrow> (case map_option trim (content m) of
                          Some c \<Rightarrow> if c \<noteq> [] then Some (cl @ lit ''\<newline>\<newline>'' @ c) else Some cl
                        | None \<Rightarrow> Some cl)
          | None \<Rightarrow> map_option trim (content m)) of
      Some payload \<Rightarrow> (if payload \<noteq> [] then (if role m = lit ''user'' then lit ''User'' else lit ''Assistant'') @ lit '': '' @ payload
                       else (if role m = lit ''user'' then lit ''User'' else lit ''Assistant'') @ lit '':'')
    | None \<Rightarrow> (if role m = lit ''user'' then lit ''User'' else lit ''Assistant'') @ lit '':'') = blockHead m"
  by (auto simp: blockHead_def blockPayload_def blockPrefix_def formatContextLine_def
      trimmedContent_def formatContextFilesLine_nonempty lit_def split: option.splits)

lemma historyPart_Some: "isKept m \<Longrightarrow> historyPart m = Some (messageBlock m)"
  unfolding historyPart_def Let_def
  by (simp only: not_kept_conds head_line if_False toolLines_unfiltered)
     (auto simp: messageBlock_def blockToolLines_def toolCallsOf_def split: option.splits)

lemma loop_eq:
  "buildContextFromHistory_loop ms parts = parts @ map messageBlock (filter isKept ms)"
  by (induction ms arbitrary: parts) (auto simp: historyPart_Some historyPart_None)

lemma prefix_join_head: "prefix x (join sep (x # xs))"
  by (cases xs) auto

text \<open>
  C7 as stated fails in one point: the context-files line does not precede the user
  block. The block begins with \<open>User: \<close> and the context-files line follows that
  prefix.
\<close>

theorem buildContextFromHistory_context_line_inside:
  "buildContextFromHistory contextFileHistory
     = lit ''User: Context files: [a.md]\<newline>\<newline>hi'' \<and>
   \<not> prefix (formatContextFilesLine [lit ''a.md'']) (buildContextFromHistory contextFileHistory)"
proof -
  have t: "trim (lit ''hi'') = lit ''hi''"
    by (simp add: trim_def lit_def isWhiteSpace_def)
  have "historyPart \<lparr>role = lit ''user'', content = Some (lit ''hi''), contextFiles = Some [lit ''a.md''],
        toolCalls = None\<rparr> = Some (lit ''User: Context files: [a.md]\<newline>\<newline>hi'')"
    by (simp add: historyPart_def hasText_def t formatContextLine_def formatContextFilesLine_def Let_def)
      (simp add: lit_def)
  then have a: "buildContextFromHistory contextFileHistory
     = lit ''User: Context files: [a.md]\<newline>\<newline>hi''"
    by (simp add: buildContextFromHistory_def contextFileHistory_def)
  have b: "\<not> prefix (formatContextFilesLine [lit ''a.md'']) (lit ''User: Context files: [a.md]\<newline>\<newline>hi'')"
    by (simp add: formatContextFilesLine_def lit_def)
  from a b show ?thesis by simp
qed

text \<open>
  C7 (amended). For every message list, buildContextFromHistory is the blocks of the
  kept messages, in list order, joined by blank lines. A message is kept iff its role
  is user, or its role is assistant and it has non-empty trimmed content or a tool call
  with a non-empty trimmed result; any other role is omitted. A block begins with
  \<open>User:\<close> or \<open>Assistant:\<close>. In a user block with non-empty contextFiles the
  context-files line follows the prefix \<open>User: \<close> and comes before the trimmed
  content, a blank line apart. An assistant block appends one line per tool call:
  \<open>[Tool name status=status]\<close>, with \<open>completed\<close> for a missing status, followed when
  the result has non-empty trimmed text by \<open> result: \<close> and the result, cut to 800 code
  units with \<open>... (truncated)\<close> appended when it is longer.
\<close>

theorem buildContextFromHistory_blocks:
  "buildContextFromHistory messages
     = join (lit ''\<newline>\<newline>'') (map messageBlock (filter isKept messages))
   \<and> (\<forall>m. isKept m =
         (role m = lit ''user'' \<or>
          role m = lit ''assistant'' \<and>
            ((case content m of None \<Rightarrow> False | Some c \<Rightarrow> trim c \<noteq> []) \<or>
             (\<exists>tc \<in> set (toolCallsOf m). case result tc of None \<Rightarrow> False | Some r \<Rightarrow> trim r \<noteq> []))))
   \<and> (\<forall>m. prefix (if role m = lit ''user'' then lit ''User:'' else lit ''Assistant:'')
              (messageBlock m))
   \<and> (\<forall>m files. role m = lit ''user'' \<and> contextFiles m = Some files \<and> files \<noteq> [] \<longrightarrow>
         messageBlock m
           = lit ''User: Context files: ['' @ join (lit '', '') files @ lit '']''
               @ (if trimmedContent m = [] then []
                  else lit ''\<newline>\<newline>'' @ trimmedContent m))
   \<and> (\<forall>m. role m = lit ''assistant'' \<longrightarrow>
         messageBlock m
           = join (lit ''\<newline>'')
               (blockHead m # map (\<lambda>tc. formatToolCallForContext tc 800) (toolCallsOf m)))
   \<and> (\<forall>tc. formatToolCallForContext tc 800
         = lit ''[Tool '' @ tcName tc @ lit '' status=''
             @ (case status tc of None \<Rightarrow> lit ''completed'' | Some s \<Rightarrow> s) @ lit '']''
             @ (case result tc of
                  None \<Rightarrow> []
                | Some r \<Rightarrow>
                    if trim r = [] then []
                    else lit '' result: ''
                           @ (if 800 < length r then take 800 r @ lit ''... (truncated)''
                              else r)))"
proof (intro conjI allI impI)
  show "buildContextFromHistory messages
     = join (lit ''\<newline>\<newline>'') (map messageBlock (filter isKept messages))"
    by (simp add: buildContextFromHistory_def loop_eq)
next
  fix m :: ChatMessage
  show "isKept m =
         (role m = lit ''user'' \<or>
          role m = lit ''assistant'' \<and>
            ((case content m of None \<Rightarrow> False | Some c \<Rightarrow> trim c \<noteq> []) \<or>
             (\<exists>tc \<in> set (toolCallsOf m). case result tc of None \<Rightarrow> False | Some r \<Rightarrow> trim r \<noteq> [])))"
    by (auto simp: isKept_def trimmedContent_def hasTrimmedResult_def list_ex_iff
        split: option.splits)
next
  fix m :: ChatMessage
  have "prefix (blockPrefix m) (blockHead m)"
    by (simp add: blockHead_def)
  moreover have "prefix (blockHead m) (messageBlock m)"
    by (simp add: messageBlock_def prefix_join_head)
  ultimately show "prefix (if role m = lit ''user'' then lit ''User:'' else lit ''Assistant:'')
      (messageBlock m)"
    unfolding blockPrefix_def by (rule prefix_order.trans)
next
  fix m :: ChatMessage and files
  assume a: "role m = lit ''user'' \<and> contextFiles m = Some files \<and> files \<noteq> []"
  then have "messageBlock m = blockHead m"
    by (simp add: messageBlock_def blockToolLines_def user_not_assistant)
  also from a have "blockHead m
      = lit ''User: Context files: ['' @ join (lit '', '') files @ lit '']''
          @ (if trimmedContent m = [] then [] else lit ''\<newline>\<newline>'' @ trimmedContent m)"
    by (simp add: blockHead_def blockPayload_def blockPrefix_def formatContextFilesLine_nonempty)
      (simp add: formatContextFilesLine_def lit_def)
  finally show "messageBlock m
           = lit ''User: Context files: ['' @ join (lit '', '') files @ lit '']''
               @ (if trimmedContent m = [] then []
                  else lit ''\<newline>\<newline>'' @ trimmedContent m)" .
next
  fix m :: ChatMessage
  assume "role m = lit ''assistant''"
  then show "messageBlock m
           = join (lit ''\<newline>'')
               (blockHead m # map (\<lambda>tc. formatToolCallForContext tc 800) (toolCallsOf m))"
    by (simp add: messageBlock_def blockToolLines_def formatToolCallForContext_toolLine)
next
  fix tc :: ToolCallInfo
  show "formatToolCallForContext tc 800
         = lit ''[Tool '' @ tcName tc @ lit '' status=''
             @ (case status tc of None \<Rightarrow> lit ''completed'' | Some s \<Rightarrow> s) @ lit '']''
             @ (case result tc of
                  None \<Rightarrow> []
                | Some r \<Rightarrow>
                    if trim r = [] then []
                    else lit '' result: ''
                           @ (if 800 < length r then take 800 r @ lit ''... (truncated)''
                              else r))"
    by (simp add: formatToolCallForContext_toolLine toolLine_def)
qed

text \<open>The pieces of the example history.\<close>

lemma dropWhile_hd: "xs \<noteq> [] \<Longrightarrow> \<not> P (hd xs) \<Longrightarrow> dropWhile P xs = xs"
  by (cases xs) simp_all

lemma trim_unchanged:
  assumes "s \<noteq> []" "\<not> isWhiteSpace (hd s)" "\<not> isWhiteSpace (last s)"
  shows "trim s = s"
proof -
  have a: "dropWhile isWhiteSpace s = s"
    using assms(1,2) by (rule dropWhile_hd)
  have "rev s \<noteq> []" "\<not> isWhiteSpace (hd (rev s))"
    using assms(1,3) by (simp_all add: hd_rev)
  then have b: "dropWhile isWhiteSpace (rev s) = rev s"
    by (rule dropWhile_hd)
  show ?thesis
    by (simp add: trim_def a b)
qed

lemma x_not_space: "\<not> isWhiteSpace 0x78"
  by (simp add: isWhiteSpace_def)

lemma trim_long: "trim (replicate 801 0x78) = replicate 801 0x78"
  by (rule trim_unchanged) (simp_all add: x_not_space)

lemma kept_user: "isKept userMessage"
  by (simp add: isKept_def userMessage_def)

lemma dropped_system: "\<not> isKept systemMessage"
  by (simp add: isKept_def systemMessage_def lit_def)

lemma dropped_blank: "\<not> isKept blankAssistantMessage"
  by (simp add: isKept_def blankAssistantMessage_def trimmedContent_def toolCallsOf_def
      hasTrimmedResult_def trim_def isWhiteSpace_def lit_def)

lemma kept_assistant: "isKept assistantMessage"
  by (simp add: isKept_def assistantMessage_def trimmedContent_def trim_def isWhiteSpace_def lit_def)

lemma block_user: "messageBlock userMessage = lit ''User: Context files: [a.md]\<newline>\<newline>hi''"
  by (simp add: messageBlock_def blockHead_def blockPayload_def blockPrefix_def blockToolLines_def
      userMessage_def trimmedContent_def formatContextFilesLine_def trim_def isWhiteSpace_def lit_def)

lemma block_assistant:
  "messageBlock assistantMessage
     = lit ''Assistant: ok\<newline>[Tool Grep status=error] result: ''
         @ replicate 800 0x78 @ lit ''... (truncated)''"
proof -
  have "toolLine \<lparr>tcName = lit ''Grep'', status = Some (lit ''error''), result = Some (replicate 801 0x78)\<rparr>
      = lit ''[Tool Grep status=error] result: '' @ replicate 800 0x78 @ lit ''... (truncated)''"
    by (simp add: toolLine_def trim_long) (simp add: lit_def)
  moreover have "blockHead assistantMessage = lit ''Assistant: ok''"
    by (simp add: blockHead_def blockPayload_def blockPrefix_def assistantMessage_def
        trimmedContent_def trim_def isWhiteSpace_def lit_def)
  ultimately show ?thesis
    by (simp add: messageBlock_def blockToolLines_def toolCallsOf_def assistantMessage_def)
      (simp add: lit_def)
qed

text \<open>
  In the example the no-break spaces are trimmed, the assistant message that holds only
  a no-break space is dropped, and the long tool result is cut after 800 code units.
\<close>

theorem buildContextFromHistory_blocks_witness:
  "buildContextFromHistory exampleHistory =
     lit ''User: Context files: [a.md]\<newline>\<newline>hi\<newline>\<newline>Assistant: ok\<newline>[Tool Grep status=error] result: ''
       @ replicate 800 0x78 @ lit ''... (truncated)''"
proof -
  have "buildContextFromHistory exampleHistory
      = join (lit ''\<newline>\<newline>'') (map messageBlock (filter isKept exampleHistory))"
    by (rule buildContextFromHistory_blocks [THEN conjunct1])
  also have "\<dots> = join (lit ''\<newline>\<newline>'') [messageBlock userMessage, messageBlock assistantMessage]"
    by (simp add: exampleHistory_def kept_user dropped_system dropped_blank kept_assistant)
  also have "\<dots> = lit ''User: Context files: [a.md]\<newline>\<newline>hi\<newline>\<newline>Assistant: ok\<newline>[Tool Grep status=error] result: ''
       @ replicate 800 0x78 @ lit ''... (truncated)''"
    by (simp add: block_user block_assistant) (simp add: lit_def)
  finally show ?thesis .
qed

subsection \<open>C4: load merges the stored settings over the defaults\<close>

lemma fold_assign: "fold assign props target = target ++ map_of (rev props)"
proof (induction props arbitrary: target)
  case Nil
  show ?case by simp
next
  case (Cons kv props)
  have a: "assign kv target = target(fst kv \<mapsto> snd kv)"
    by (simp add: assign_def)
  have "fold assign (kv # props) target = assign kv target ++ map_of (rev props)"
    by (simp add: Cons.IH)
  also have "\<dots> = target ++ map_of (rev (kv # props))"
    unfolding a by (simp add: map_add_assoc [symmetric])
  finally show ?case .
qed

lemma spread_map_add: "spread target props = target ++ map_of (rev props)"
  by (simp add: spread_def fold_assign)

lemma getDefaults_lookup:
  "getDefaults D k =
     (if k \<in> {''slashCommands'', ''lastEnvHash'', ''lastClaudeModel'', ''lastCustomModel''}
      then None else D k)"
  by (simp add: getDefaults_def restrict_map_def)

text \<open>
  C4. For every stored settings object: when the settings file exists, is read, and
  parses as that object, load returns the defaults (without slashCommands, lastEnvHash,
  lastClaudeModel, lastCustomModel) overridden field by field by the stored object, and
  logs nothing; when the file does not exist, load returns exactly those defaults.
\<close>

theorem load_merges_stored_over_defaults:
  "(adapter_exists adapter SETTINGS_PATH fs = Inr True \<and>
    adapter_read adapter SETTINGS_PATH fs = Inr fileContent \<and>
    JSON_parse fileContent = Inr (JObj stored) \<longrightarrow>
      load adapter JSON_parse DEFAULT_SETTINGS fs
        = ([], Inr (getDefaults DEFAULT_SETTINGS ++ map_of (rev stored))))
   \<and> (adapter_exists adapter SETTINGS_PATH fs = Inr False \<longrightarrow>
      load adapter JSON_parse DEFAULT_SETTINGS fs = ([], Inr (getDefaults DEFAULT_SETTINGS)))
   \<and> getDefaults DEFAULT_SETTINGS k =
       (if k \<in> {''slashCommands'', ''lastEnvHash'', ''lastClaudeModel'', ''lastCustomModel''}
        then None else DEFAULT_SETTINGS k)"
  by (simp add: load_def load_try_def ownProps_def spread_map_add getDefaults_lookup)

theorem load_merges_stored_over_defaults_witness:
  "load mapAdapter exampleParse exampleDefaults storedVault
     = ([], Inr [''enableBlocklist'' \<mapsto> JBool True, ''model'' \<mapsto> JStr ''haiku''])
   \<and> load mapAdapter exampleParse exampleDefaults Map.empty
     = ([], Inr [''enableBlocklist'' \<mapsto> JBool True, ''model'' \<mapsto> JStr ''sonnet''])"
proof -
  have d: "getDefaults exampleDefaults = [''enableBlocklist'' \<mapsto> JBool True, ''model'' \<mapsto> JStr ''sonnet'']"
    by (rule ext) (simp add: getDefaults_lookup exampleDefaults_def)
  have 1: "adapter_exists mapAdapter SETTINGS_PATH storedVault = Inr True"
    by (simp add: mapAdapter_def storedVault_def SETTINGS_PATH_def)
  have 2: "adapter_read mapAdapter SETTINGS_PATH storedVault = Inr ''{\"model\":\"haiku\"}''"
    by (simp add: mapAdapter_def storedVault_def SETTINGS_PATH_def)
  have 3: "exampleParse ''{\"model\":\"haiku\"}'' = Inr (JObj [(''model'', JStr ''haiku'')])"
    by (simp add: exampleParse_def)
  have 4: "adapter_exists mapAdapter SETTINGS_PATH Map.empty = Inr False"
    by (simp add: mapAdapter_def)
  have "load mapAdapter exampleParse exampleDefaults storedVault
     = ([], Inr (getDefaults exampleDefaults ++ map_of (rev [(''model'', JStr ''haiku'')])))"
    using load_merges_stored_over_defaults
      [of mapAdapter storedVault "''{\"model\":\"haiku\"}''" exampleParse "[(''model'', JStr ''haiku'')]" exampleDefaults]
      1 2 3 by blast
  moreover have "load mapAdapter exampleParse exampleDefaults Map.empty = ([], Inr (getDefaults exampleDefaults))"
    using load_merges_stored_over_defaults [of mapAdapter Map.empty _ exampleParse _ exampleDefaults] 4
    by blast
  ultimately show ?thesis
    by (simp add: d)
qed

subsection \<open>C5: what load and save do with a failure\<close>

text \<open>
  C5 as stated fails for save: on a vault that cannot be written, save logs the error
  and throws it on to its caller.
\<close>

theorem save_rethrows:
  "snd (save readOnlyAdapter exampleStringify exampleDefaults Map.empty) = Inl (Thrown ''EROFS'')"
  by (simp add: save_def readOnlyAdapter_def mapAdapter_def)

text \<open>
  C5 (amended). load never throws: when the existence check, the read or the JSON
  parse fails, load logs that error and returns the defaults. save logs a write
  failure and throws the same error again to its caller; when the write succeeds it
  logs nothing and returns.
\<close>

theorem load_recovers_save_rethrows:
  "(\<exists>loaded. snd (load adapter JSON_parse DEFAULT_SETTINGS fs) = Inr loaded)
   \<and> (adapter_exists adapter SETTINGS_PATH fs = Inl e \<or>
       adapter_exists adapter SETTINGS_PATH fs = Inr True \<and>
         (adapter_read adapter SETTINGS_PATH fs = Inl e \<or>
          (\<exists>fileContent. adapter_read adapter SETTINGS_PATH fs = Inr fileContent \<and>
             JSON_parse fileContent = Inl e)) \<longrightarrow>
       load adapter JSON_parse DEFAULT_SETTINGS fs
         = ([(''[Claudian] Failed to load settings:'', e)], Inr (getDefaults DEFAULT_SETTINGS)))
   \<and> (adapter_write adapter SETTINGS_PATH (JSON_stringify settings) fs = Inl e \<longrightarrow>
       save adapter JSON_stringify settings fs
         = ([(''[Claudian] Failed to save settings:'', e)], Inl e))
   \<and> (adapter_write adapter SETTINGS_PATH (JSON_stringify settings) fs = Inr fs' \<longrightarrow>
       save adapter JSON_stringify settings fs = ([], Inr fs'))"
  by (auto simp: load_def load_try_def save_def split: sum.splits)

theorem load_recovers_save_rethrows_witness:
  "load mapAdapter exampleParse exampleDefaults brokenVault
     = ([(''[Claudian] Failed to load settings:'', Thrown ''SyntaxError'')],
        Inr (getDefaults exampleDefaults))
   \<and> save readOnlyAdapter exampleStringify exampleDefaults Map.empty
     = ([(''[Claudian] Failed to save settings:'', Thrown ''EROFS'')], Inl (Thrown ''EROFS''))
   \<and> save mapAdapter exampleStringify exampleDefaults Map.empty
     = ([], Inr [''.claude/settings.json'' \<mapsto> ''{}''])"
proof -
  have 1: "adapter_exists mapAdapter SETTINGS_PATH brokenVault = Inr True"
    by (simp add: mapAdapter_def brokenVault_def SETTINGS_PATH_def)
  have 2: "adapter_read mapAdapter SETTINGS_PATH brokenVault = Inr ''{''"
    by (simp add: mapAdapter_def brokenVault_def SETTINGS_PATH_def)
  have 3: "exampleParse ''{'' = Inl (Thrown ''SyntaxError'')"
    by (simp add: exampleParse_def)
  have 4: "adapter_write readOnlyAdapter SETTINGS_PATH (exampleStringify exampleDefaults) Map.empty
      = Inl (Thrown ''EROFS'')"
    by (simp add: readOnlyAdapter_def mapAdapter_def)
  have 5: "adapter_write mapAdapter SETTINGS_PATH (exampleStringify exampleDefaults) Map.empty
      = Inr [''.claude/settings.json'' \<mapsto> ''{}'']"
    by (simp add: mapAdapter_def SETTINGS_PATH_def exampleStringify_def)
  have a: "load mapAdapter exampleParse exampleDefaults brokenVault
     = ([(''[Claudian] Failed to load settings:'', Thrown ''SyntaxError'')],
        Inr (getDefaults exampleDefaults))"
    using load_recovers_save_rethrows [of mapAdapter exampleParse exampleDefaults brokenVault "Thrown ''SyntaxError''"]
      1 2 3 by blast
  have b: "save readOnlyAdapter exampleStringify exampleDefaults Map.empty
     = ([(''[Claudian] Failed to save settings:'', Thrown ''EROFS'')], Inl (Thrown ''EROFS''))"
    using load_recovers_save_rethrows [of readOnlyAdapter _ _ Map.empty "Thrown ''EROFS''" exampleStringify exampleDefaults]
      4 by blast
  have c: "save mapAdapter exampleStringify exampleDefaults Map.empty
     = ([], Inr [''.claude/settings.json'' \<mapsto> ''{}''])"
    using load_recovers_save_rethrows [of mapAdapter _ _ Map.empty _ exampleStringify exampleDefaults "[''.claude/settings.json'' \<mapsto> ''{}'']"]
      5 by blast
  from a b c show ?thesis by simp
qed

subsection \<open>C1, C6: path containment after best-effort resolution\<close>

text \<open>The loop walks up one ancestor at a time and keeps the segments it has passed.\<close>

lemma ancestor_dirname: "ancestor nd (path_dirname nd c) j = ancestor nd c (Suc j)"
  by (induction j) simp_all

lemma map_upt_shift: "map f [0..<Suc n] = f 0 # map (\<lambda>j. f (Suc j)) [0..<n]"
  by (simp add: upt_rec [of 0 "Suc n"] map_Suc_upt [symmetric] del: upt_Suc)

lemma loop_step:
  assumes "\<not> resolvable nd c" "path_dirname nd c \<noteq> c"
  shows "resolveRealPath_loop nd a c sfx
           = resolveRealPath_loop nd a (path_dirname nd c) (sfx @ [path_basename nd c])"
  using assms
  by (subst resolveRealPath_loop.simps) (auto simp: resolvable_def Let_def split: option.splits)

lemma loop_found:
  assumes "fs_existsSync nd c" "fs_realpath nd c = Some r"
  shows "resolveRealPath_loop nd a c sfx = Some (reappend nd r (rev sfx))"
  using assms
  by (subst resolveRealPath_loop.simps) (simp add: reappend_def)

lemma loop_root:
  assumes "\<not> resolvable nd c" "path_dirname nd c = c"
  shows "resolveRealPath_loop nd a c sfx = Some a"
  using assms
  by (subst resolveRealPath_loop.simps) (auto simp: resolvable_def Let_def split: option.splits)

lemma loop_nearest:
  assumes "fs_existsSync nd (ancestor nd c i)" "fs_realpath nd (ancestor nd c i) = Some r"
    and "\<forall>j<i. \<not> resolvable nd (ancestor nd c j)"
  shows "resolveRealPath_loop nd a c sfx
           = Some (reappend nd r (rev (sfx @ map (\<lambda>j. path_basename nd (ancestor nd c j)) [0..<i])))"
  using assms
proof (induction i arbitrary: c sfx)
  case 0
  then show ?case by (simp add: loop_found)
next
  case (Suc i)
  from Suc.prems(3) have nr: "\<not> resolvable nd c"
    by (metis ancestor.simps(1) zero_less_Suc)
  have moves: "path_dirname nd c \<noteq> c"
  proof
    assume stuck: "path_dirname nd c = c"
    have "ancestor nd c j = c" for j
      by (induction j) (simp_all add: stuck)
    then have e: "ancestor nd c (Suc i) = c" .
    have "fs_existsSync nd c"
      using Suc.prems(1) unfolding e .
    moreover have "fs_realpath nd c = Some r"
      using Suc.prems(2) unfolding e .
    ultimately have "resolvable nd c"
      by (simp add: resolvable_def)
    with nr show False ..
  qed
  have ex: "fs_existsSync nd (ancestor nd (path_dirname nd c) i)"
    and rp: "fs_realpath nd (ancestor nd (path_dirname nd c) i) = Some r"
    using Suc.prems(1,2) unfolding ancestor_dirname by blast+
  have below: "\<forall>j<i. \<not> resolvable nd (ancestor nd (path_dirname nd c) j)"
    using Suc.prems(3) unfolding ancestor_dirname by (metis Suc_less_eq)
  have "resolveRealPath_loop nd a c sfx
      = resolveRealPath_loop nd a (path_dirname nd c) (sfx @ [path_basename nd c])"
    using nr moves by (rule loop_step)
  also have "\<dots> = Some (reappend nd r (rev ((sfx @ [path_basename nd c]) @
        map (\<lambda>j. path_basename nd (ancestor nd (path_dirname nd c) j)) [0..<i])))"
    using ex rp below by (rule Suc.IH)
  also have "(sfx @ [path_basename nd c]) @
        map (\<lambda>j. path_basename nd (ancestor nd (path_dirname nd c) j)) [0..<i]
      = sfx @ map (\<lambda>j. path_basename nd (ancestor nd c j)) [0..<Suc i]"
    unfolding map_upt_shift [of _ i] by (simp add: ancestor_dirname)
  finally show ?case .
qed

lemma loop_unresolved:
  assumes "path_dirname nd (ancestor nd c k) = ancestor nd c k"
    and "\<forall>j\<le>k. \<not> resolvable nd (ancestor nd c j)"
  shows "resolveRealPath_loop nd a c sfx = Some a"
  using assms
proof (induction k arbitrary: c sfx)
  case 0
  then show ?case by (simp add: loop_root)
next
  case (Suc k)
  from Suc.prems(2) have nr: "\<not> resolvable nd c"
    by (metis ancestor.simps(1) le0)
  show ?case
  proof (cases "path_dirname nd c = c")
    case True
    with nr show ?thesis by (rule loop_root)
  next
    case False
    have "path_dirname nd (ancestor nd (path_dirname nd c) k) = ancestor nd (path_dirname nd c) k"
      using Suc.prems(1) unfolding ancestor_dirname .
    moreover have "\<forall>j\<le>k. \<not> resolvable nd (ancestor nd (path_dirname nd c) j)"
      using Suc.prems(2) unfolding ancestor_dirname by (metis Suc_le_mono)
    ultimately have "resolveRealPath_loop nd a (path_dirname nd c) (sfx @ [path_basename nd c]) = Some a"
      by (rule Suc.IH)
    with nr False show ?thesis by (simp add: loop_step)
  qed
qed

text \<open>The code returns, and returns the best-effort resolution.\<close>

lemma resolveRealPath_bestEffort:
  assumes "bestEffortRealPath nd p r"
  shows "resolveRealPath nd p = Some r"
  using assms
proof cases
  case whole
  then show ?thesis by (simp add: resolveRealPath_def)
next
  case (nearest a i q)
  from nearest(4,5,6) have "resolveRealPath_loop nd a a []
      = Some (reappend nd q (rev ([] @ map (\<lambda>j. path_basename nd (ancestor nd a j)) [0..<i])))"
    by (rule loop_nearest)
  with nearest(1,2,3) show ?thesis
    by (simp add: resolveRealPath_def remainingSegments_def rev_map)
next
  case (unresolved k)
  from unresolved(3,4) have "resolveRealPath_loop nd r r [] = Some r"
    by (rule loop_unresolved)
  with unresolved(1,2) show ?thesis
    by (simp add: resolveRealPath_def)
qed


lemma bestEffortRealPath_unique:
  "bestEffortRealPath nd p r \<Longrightarrow> bestEffortRealPath nd p r' \<Longrightarrow> r = r'"
  by (drule resolveRealPath_bestEffort)+ simp

text \<open>
  Every path has a best-effort resolution as soon as repeated \<open>path.dirname\<close> reaches a
  path that is its own parent (a root), which is the only way the loop can give up.
\<close>

lemma bestEffortRealPath_total:
  assumes "path_dirname nd (ancestor nd (path_resolve nd [p]) k) = ancestor nd (path_resolve nd [p]) k"
  shows "\<exists>r. bestEffortRealPath nd p r"
proof (cases "fs_realpath nd p")
  case (Some r)
  then show ?thesis by (blast intro: whole)
next
  case None
  show ?thesis
  proof (cases "\<exists>i. resolvable nd (ancestor nd (path_resolve nd [p]) i)")
    case True
    define i where "i = (LEAST i. resolvable nd (ancestor nd (path_resolve nd [p]) i))"
    from True have ri: "resolvable nd (ancestor nd (path_resolve nd [p]) i)"
      unfolding i_def by (rule LeastI_ex)
    have least: "\<forall>j<i. \<not> resolvable nd (ancestor nd (path_resolve nd [p]) j)"
      unfolding i_def by (blast dest: not_less_Least)
    from ri obtain r where "fs_existsSync nd (ancestor nd (path_resolve nd [p]) i)"
      "fs_realpath nd (ancestor nd (path_resolve nd [p]) i) = Some r"
      by (auto simp: resolvable_def)
    with None least show ?thesis
      by (blast intro: nearest)
  next
    case False
    with None assms show ?thesis
      by (blast intro: unresolved)
  qed
qed

lemma candidate_expansion:
  "(if path_isAbsolute nd (if startsWith c ''~/'' then path_join nd [os_homedir nd, drop 2 c] else c)
    then (if startsWith c ''~/'' then path_join nd [os_homedir nd, drop 2 c] else c)
    else path_resolve nd [v, if startsWith c ''~/'' then path_join nd [os_homedir nd, drop 2 c] else c])
   = absoluteCandidate nd c v"
  by (simp add: absoluteCandidate_def expandHome_def startsWith_prefix)

text \<open>
  Conversely, whatever the code returns is the best-effort resolution; so the code
  returns \<open>r\<close> exactly when \<open>r\<close> is the best-effort resolution of the path.
\<close>

lemma walked_here:
  "fs_existsSync nd c \<Longrightarrow> fs_realpath nd c = Some q \<Longrightarrow> walked nd a c sfx (reappend nd q (rev sfx))"
  unfolding walked_def
  by (rule disjI1, rule exI [of _ 0]) simp

lemma walked_root:
  "\<not> resolvable nd c \<Longrightarrow> path_dirname nd c = c \<Longrightarrow> walked nd a c sfx a"
  unfolding walked_def
  by (rule disjI2, rule exI [of _ 0]) simp

lemma walked_up:
  assumes nr: "\<not> resolvable nd c"
    and w: "walked nd a (path_dirname nd c) (sfx @ [path_basename nd c]) r"
  shows "walked nd a c sfx r"
proof -
  from w consider
    (found) i q where "fs_existsSync nd (ancestor nd c (Suc i))"
      "fs_realpath nd (ancestor nd c (Suc i)) = Some q"
      "\<forall>j<i. \<not> resolvable nd (ancestor nd c (Suc j))"
      "r = reappend nd q (rev ((sfx @ [path_basename nd c]) @
             map (\<lambda>j. path_basename nd (ancestor nd c (Suc j))) [0..<i]))"
    | (root) k where "path_dirname nd (ancestor nd c (Suc k)) = ancestor nd c (Suc k)"
      "\<forall>j\<le>k. \<not> resolvable nd (ancestor nd c (Suc j))" "r = a"
    unfolding walked_def ancestor_dirname by blast
  then show ?thesis
  proof cases
    case found
    have below: "\<forall>j<Suc i. \<not> resolvable nd (ancestor nd c j)"
    proof (intro allI impI)
      fix j assume "j < Suc i"
      then show "\<not> resolvable nd (ancestor nd c j)"
        using nr found(3) by (cases j) auto
    qed
    have eq: "(sfx @ [path_basename nd c]) @ map (\<lambda>j. path_basename nd (ancestor nd c (Suc j))) [0..<i]
        = sfx @ map (\<lambda>j. path_basename nd (ancestor nd c j)) [0..<Suc i]"
      unfolding map_upt_shift [of _ i] by simp
    have "r = reappend nd q (rev (sfx @ map (\<lambda>j. path_basename nd (ancestor nd c j)) [0..<Suc i]))"
      using found(4) unfolding eq .
    with found(1,2) below show ?thesis
      unfolding walked_def by blast
  next
    case root
    have "\<forall>j\<le>Suc k. \<not> resolvable nd (ancestor nd c j)"
    proof (intro allI impI)
      fix j assume "j \<le> Suc k"
      then show "\<not> resolvable nd (ancestor nd c j)"
        using nr root(2) by (cases j) auto
    qed
    with root(1,3) show ?thesis
      unfolding walked_def by blast
  qed
qed

lemma loop_sound:
  assumes "resolveRealPath_loop nd a c sfx = Some r"
  shows "walked nd a c sfx r"
proof (rule resolveRealPath_loop.raw_induct [where P = walked])
  show "resolveRealPath_loop nd a c sfx = Some r"
    by (rule assms)
next
  fix loop nd a c sfx r
  assume IH: "\<And>nd a c sfx r. loop nd a c sfx = Some r \<Longrightarrow> walked nd a c sfx r"
    and body: "(case if fs_existsSync nd c then fs_realpath nd c else None of
         None \<Rightarrow>
           let parent = path_dirname nd c
           in if parent = c then Some a
              else loop nd a parent (sfx @ [path_basename nd c])
       | Some resolvedExisting \<Rightarrow>
           Some (if 0 < length sfx then path_join nd (resolvedExisting # rev sfx)
                 else resolvedExisting)) = Some r"
  show "walked nd a c sfx r"
  proof (cases "resolvable nd c")
    case True
    then obtain q where q: "fs_existsSync nd c" "fs_realpath nd c = Some q"
      by (auto simp: resolvable_def)
    with body have "r = reappend nd q (rev sfx)"
      by (auto simp: reappend_def)
    with q show ?thesis by (simp add: walked_here)
  next
    case False
    then have none: "(if fs_existsSync nd c then fs_realpath nd c else None) = None"
      by (auto simp: resolvable_def)
    show ?thesis
    proof (cases "path_dirname nd c = c")
      case True
      with body none have "r = a" by (simp add: Let_def)
      with False True show ?thesis by (simp add: walked_root)
    next
      case moves: False
      with body none have "loop nd a (path_dirname nd c) (sfx @ [path_basename nd c]) = Some r"
        by (simp add: Let_def)
      then have "walked nd a (path_dirname nd c) (sfx @ [path_basename nd c]) r"
        by (rule IH)
      with False show ?thesis by (rule walked_up)
    qed
  qed
qed

lemma resolveRealPath_sound:
  assumes "resolveRealPath nd p = Some r"
  shows "bestEffortRealPath nd p r"
proof (cases "fs_realpath nd p")
  case (Some q)
  with assms show ?thesis
    by (auto simp: resolveRealPath_def intro: whole)
next
  case None
  with assms have "resolveRealPath_loop nd (path_resolve nd [p]) (path_resolve nd [p]) [] = Some r"
    by (simp add: resolveRealPath_def Let_def)
  then have "walked nd (path_resolve nd [p]) (path_resolve nd [p]) [] r"
    by (rule loop_sound)
  then consider
    (found) i q where "fs_existsSync nd (ancestor nd (path_resolve nd [p]) i)"
      "fs_realpath nd (ancestor nd (path_resolve nd [p]) i) = Some q"
      "\<forall>j<i. \<not> resolvable nd (ancestor nd (path_resolve nd [p]) j)"
      "r = reappend nd q (remainingSegments nd (path_resolve nd [p]) i)"
    | (root) k where "path_dirname nd (ancestor nd (path_resolve nd [p]) k) = ancestor nd (path_resolve nd [p]) k"
      "\<forall>j\<le>k. \<not> resolvable nd (ancestor nd (path_resolve nd [p]) j)" "r = path_resolve nd [p]"
    unfolding walked_def remainingSegments_def by (auto simp: rev_map)
  then show ?thesis
  proof cases
    case found
    show ?thesis
      unfolding found(4) using None refl found(1,2,3) by (rule nearest)
  next
    case root
    show ?thesis
      unfolding root(3) using None refl root(1,2) by (rule unresolved)
  qed
qed

lemma resolveRealPath_iff: "resolveRealPath nd p = Some r \<longleftrightarrow> bestEffortRealPath nd p r"
  using resolveRealPath_sound resolveRealPath_bestEffort by blast

text \<open>
  C1. For every candidate path and vault path: with a leading \<open>~/\<close> of the candidate
  expanded to the home directory and a relative candidate resolved against the vault
  path, and with both the vault path and that candidate resolved best-effort (the
  realpath of the full path if it is found, otherwise the realpath of the nearest
  existing ancestor with the remaining segments re-appended), isPathWithinVault returns
  true iff the resolved candidate equals the resolved vault path or starts with the
  resolved vault path followed by the path separator.
\<close>

theorem isPathWithinVault_best_effort:
  assumes "bestEffortRealPath nd vaultPath vaultReal"
    and "bestEffortRealPath nd (absoluteCandidate nd candidatePath vaultPath) resolvedCandidate"
  shows "isPathWithinVault nd candidatePath vaultPath
           = Some (resolvedCandidate = vaultReal \<or>
                   prefix (vaultReal @ path_sep nd) resolvedCandidate)"
proof -
  have v: "resolveRealPath nd vaultPath = Some vaultReal"
    using assms(1) by (rule resolveRealPath_bestEffort)
  have c: "resolveRealPath nd (absoluteCandidate nd candidatePath vaultPath) = Some resolvedCandidate"
    using assms(2) by (rule resolveRealPath_bestEffort)
  show ?thesis
    unfolding isPathWithinVault_def Let_def candidate_expansion
    by (simp add: v c startsWith_prefix)
qed

lemma allowedExportPaths_loop_any:
  assumes "list_all2 (\<lambda>e re. bestEffortRealPath nd (expandHome nd e) re) exportPaths resolvedExports"
  shows "allowedExportPaths_loop nd rc exportPaths
           = Some (\<exists>re \<in> set resolvedExports. rc = re \<or> prefix (re @ path_sep nd) rc)"
  using assms
proof (induction rule: list_all2_induct)
  case Nil
  show ?case by simp
next
  case (Cons e es re res)
  have "resolveRealPath nd (if startsWith e ''~/'' then path_join nd [os_homedir nd, drop 2 e] else e)
      = Some re"
    using Cons.hyps(1) resolveRealPath_bestEffort [of nd "expandHome nd e" re]
    by (simp add: expandHome_def startsWith_prefix)
  then show ?case
    by (simp add: Cons.IH startsWith_prefix)
qed

text \<open>
  C6. For every candidate path, list of allowed export paths and vault path,
  isPathInAllowedExportPaths returns false when the list is missing or empty; otherwise,
  with the candidate and every export path \<open>~/\<close>-expanded and resolved best-effort as
  for isPathWithinVault, it returns true iff the resolved candidate equals some resolved
  export path or starts with that resolved export path followed by the path separator.
\<close>

theorem isPathInAllowedExportPaths_best_effort:
  "(allowedExportPaths = None \<or> allowedExportPaths = Some [] \<longrightarrow>
      isPathInAllowedExportPaths nd candidatePath allowedExportPaths vaultPath = Some False)
   \<and> (allowedExportPaths = Some exportPaths \<and> exportPaths \<noteq> [] \<and>
       bestEffortRealPath nd (absoluteCandidate nd candidatePath vaultPath) resolvedCandidate \<and>
       list_all2 (\<lambda>e re. bestEffortRealPath nd (expandHome nd e) re) exportPaths resolvedExports \<longrightarrow>
      isPathInAllowedExportPaths nd candidatePath allowedExportPaths vaultPath
        = Some (\<exists>re \<in> set resolvedExports.
                  resolvedCandidate = re \<or> prefix (re @ path_sep nd) resolvedCandidate))"
proof (intro conjI impI)
  assume "allowedExportPaths = None \<or> allowedExportPaths = Some []"
  then show "isPathInAllowedExportPaths nd candidatePath allowedExportPaths vaultPath = Some False"
    by (auto simp: isPathInAllowedExportPaths_def)
next
  assume a: "allowedExportPaths = Some exportPaths \<and> exportPaths \<noteq> [] \<and>
       bestEffortRealPath nd (absoluteCandidate nd candidatePath vaultPath) resolvedCandidate \<and>
       list_all2 (\<lambda>e re. bestEffortRealPath nd (expandHome nd e) re) exportPaths resolvedExports"
  then have c: "resolveRealPath nd (absoluteCandidate nd candidatePath vaultPath) = Some resolvedCandidate"
    by (blast intro: resolveRealPath_bestEffort)
  from a have l: "allowedExportPaths_loop nd resolvedCandidate exportPaths
      = Some (\<exists>re \<in> set resolvedExports.
                  resolvedCandidate = re \<or> prefix (re @ path_sep nd) resolvedCandidate)"
    by (blast intro: allowedExportPaths_loop_any)
  from a show "isPathInAllowedExportPaths nd candidatePath allowedExportPaths vaultPath
        = Some (\<exists>re \<in> set resolvedExports.
                  resolvedCandidate = re \<or> prefix (re @ path_sep nd) resolvedCandidate)"
    unfolding isPathInAllowedExportPaths_def Let_def candidate_expansion
    by (simp add: c l)
qed


text \<open>
  In the example file system: a new note under the vault, and a file reached through
  the link \<open>/vault/out\<close>, which leaves the vault for the export folder.
\<close>

lemma example_vault: "bestEffortRealPath exampleNode ''/vault'' ''/vault''"
  by (rule whole) (simp add: exampleNode_def exampleRealpath_def)

lemma example_new_note:
  "bestEffortRealPath exampleNode ''/vault/new/x.md'' ''/vault/new/x.md''"
proof -
  have 0: "\<not> resolvable exampleNode (ancestor exampleNode ''/vault/new/x.md'' 0)"
    by code_simp
  have 1: "\<not> resolvable exampleNode (ancestor exampleNode ''/vault/new/x.md'' (Suc 0))"
    by code_simp
  have "bestEffortRealPath exampleNode ''/vault/new/x.md''
      (reappend exampleNode ''/vault'' (remainingSegments exampleNode ''/vault/new/x.md'' (Suc (Suc 0))))"
  proof (rule nearest)
    show "fs_realpath exampleNode ''/vault/new/x.md'' = None"
      by code_simp
    show "''/vault/new/x.md'' = path_resolve exampleNode [''/vault/new/x.md'']"
      by code_simp
    show "fs_existsSync exampleNode (ancestor exampleNode ''/vault/new/x.md'' (Suc (Suc 0)))"
      by code_simp
    show "fs_realpath exampleNode (ancestor exampleNode ''/vault/new/x.md'' (Suc (Suc 0))) = Some ''/vault''"
      by code_simp
    show "\<forall>j<Suc (Suc 0). \<not> resolvable exampleNode (ancestor exampleNode ''/vault/new/x.md'' j)"
      using 0 1 by (auto simp: less_Suc_eq)
  qed
  moreover have "reappend exampleNode ''/vault'' (remainingSegments exampleNode ''/vault/new/x.md'' (Suc (Suc 0)))
      = ''/vault/new/x.md''"
    by code_simp
  ultimately show ?thesis by simp
qed

lemma example_through_link:
  "bestEffortRealPath exampleNode ''/vault/out/a.txt'' ''/home/u/export/a.txt''"
proof -
  have 0: "\<not> resolvable exampleNode (ancestor exampleNode ''/vault/out/a.txt'' 0)"
    by code_simp
  have "bestEffortRealPath exampleNode ''/vault/out/a.txt''
      (reappend exampleNode ''/home/u/export'' (remainingSegments exampleNode ''/vault/out/a.txt'' (Suc 0)))"
  proof (rule nearest)
    show "fs_realpath exampleNode ''/vault/out/a.txt'' = None"
      by code_simp
    show "''/vault/out/a.txt'' = path_resolve exampleNode [''/vault/out/a.txt'']"
      by code_simp
    show "fs_existsSync exampleNode (ancestor exampleNode ''/vault/out/a.txt'' (Suc 0))"
      by code_simp
    show "fs_realpath exampleNode (ancestor exampleNode ''/vault/out/a.txt'' (Suc 0)) = Some ''/home/u/export''"
      by code_simp
    show "\<forall>j<Suc 0. \<not> resolvable exampleNode (ancestor exampleNode ''/vault/out/a.txt'' j)"
      using 0 by simp
  qed
  moreover have "reappend exampleNode ''/home/u/export'' (remainingSegments exampleNode ''/vault/out/a.txt'' (Suc 0))
      = ''/home/u/export/a.txt''"
    by code_simp
  ultimately show ?thesis by simp
qed

lemma example_export: "bestEffortRealPath exampleNode (expandHome exampleNode ''~/export'') ''/home/u/export''"
proof -
  have "expandHome exampleNode ''~/export'' = ''/home/u/export''"
    by code_simp
  moreover have "bestEffortRealPath exampleNode ''/home/u/export'' ''/home/u/export''"
    by (rule whole) (simp add: exampleNode_def exampleRealpath_def)
  ultimately show ?thesis by simp
qed

theorem isPathWithinVault_best_effort_witness:
  "isPathWithinVault exampleNode ''new/x.md'' ''/vault'' = Some True \<and>
   isPathWithinVault exampleNode ''out/a.txt'' ''/vault'' = Some False"
proof -
  have a1: "absoluteCandidate exampleNode ''new/x.md'' ''/vault'' = ''/vault/new/x.md''"
    by code_simp
  have a2: "absoluteCandidate exampleNode ''out/a.txt'' ''/vault'' = ''/vault/out/a.txt''"
    by code_simp
  have p1: "prefix (''/vault'' @ path_sep exampleNode) ''/vault/new/x.md''"
    by code_simp
  have p2: "\<not> prefix (''/vault'' @ path_sep exampleNode) ''/home/u/export/a.txt''"
    by code_simp
  have "isPathWithinVault exampleNode ''new/x.md'' ''/vault'' = Some True"
    using isPathWithinVault_best_effort [of exampleNode "''/vault''" "''/vault''" "''new/x.md''" "''/vault/new/x.md''"]
      example_vault example_new_note a1 p1 by simp
  moreover have "isPathWithinVault exampleNode ''out/a.txt'' ''/vault'' = Some False"
    using isPathWithinVault_best_effort [of exampleNode "''/vault''" "''/vault''" "''out/a.txt''" "''/home/u/export/a.txt''"]
      example_vault example_through_link a2 p2 by simp
  ultimately show ?thesis by simp
qed

theorem isPathInAllowedExportPaths_best_effort_witness:
  "isPathInAllowedExportPaths exampleNode ''out/a.txt'' (Some [''~/export'']) ''/vault'' = Some True \<and>
   isPathInAllowedExportPaths exampleNode ''new/x.md'' (Some [''~/export'']) ''/vault'' = Some False \<and>
   isPathInAllowedExportPaths exampleNode ''out/a.txt'' None ''/vault'' = Some False \<and>
   isPathInAllowedExportPaths exampleNode ''out/a.txt'' (Some []) ''/vault'' = Some False"
proof -
  have a1: "absoluteCandidate exampleNode ''new/x.md'' ''/vault'' = ''/vault/new/x.md''"
    by code_simp
  have a2: "absoluteCandidate exampleNode ''out/a.txt'' ''/vault'' = ''/vault/out/a.txt''"
    by code_simp
  have p1: "\<not> prefix (''/home/u/export'' @ path_sep exampleNode) ''/vault/new/x.md''"
    by code_simp
  have p2: "prefix (''/home/u/export'' @ path_sep exampleNode) ''/home/u/export/a.txt''"
    by code_simp
  have l: "list_all2 (\<lambda>e re. bestEffortRealPath exampleNode (expandHome exampleNode e) re)
      [''~/export''] [''/home/u/export'']"
    using example_export by simp
  have "isPathInAllowedExportPaths exampleNode ''out/a.txt'' (Some [''~/export'']) ''/vault'' = Some True"
    using isPathInAllowedExportPaths_best_effort
      [of "Some [''~/export'']" exampleNode "''out/a.txt''" "''/vault''" "[''~/export'']"
        "''/home/u/export/a.txt''" "[''/home/u/export'']"]
      example_through_link a2 p2 l by simp
  moreover have "isPathInAllowedExportPaths exampleNode ''new/x.md'' (Some [''~/export'']) ''/vault'' = Some False"
    using isPathInAllowedExportPaths_best_effort
      [of "Some [''~/export'']" exampleNode "''new/x.md''" "''/vault''" "[''~/export'']"
        "''/vault/new/x.md''" "[''/home/u/export'']"]
      example_new_note a1 p1 l by simp
  moreover have "isPathInAllowedExportPaths exampleNode ''out/a.txt'' None ''/vault'' = Some False"
    using isPathInAllowedExportPaths_best_effort [of None exampleNode "''out/a.txt''" "''/vault''"]
    by simp
  moreover have "isPathInAllowedExportPaths exampleNode ''out/a.txt'' (Some []) ''/vault'' = Some False"
    using isPathInAllowedExportPaths_best_effort [of "Some []" exampleNode "''out/a.txt''" "''/vault''"]
    by simp
  ultimately show ?thesis by simp
qed

end
